theory Spec2Isabelle
  imports Main
begin

section \<open>The LS-DYNA exporter \<open>write2dyna\<close> of cgx 2.23\<close>

text \<open>
  The C function \<open>write2dyna (datout, anz, node, elem, lcase)\<close> opens the file
  \<open>datout.dyn\<close> and writes the nodes and the solid elements of a mesh as fixed-column
  text. The embedding follows the source line by line:
  \<^item> the structs \<open>Summen\<close>, \<open>Nodes\<close> and \<open>Elements\<close> are records holding the fields the
    function reads (their declarations are in \<open>extUtil.h\<close>); the field names carry a
    prefix, since a record field is a constant and \<open>n\<close>, \<open>e\<close> and \<open>nr\<close> would shadow
    every variable of that name;
  \<^item> a C \<open>int\<close> is an \<open>int\<close>: the function does no arithmetic on the values it prints,
    and the loop counters stay below the counts they are compared with;
  \<^item> an array is a list, and a read outside it, which C leaves undefined, is the error
    \<open>OutOfBounds\<close>;
  \<^item> the file behind \<open>handle1\<close> and the standard output are two byte strings that
    \<open>fprintf\<close> and \<open>printf\<close> append to;
  \<^item> the text that the C library produces for \<open>%16.3f\<close> is a parameter \<open>f16_3\<close>, and so
    is the type of the coordinates; the text for \<open>%d\<close> and \<open>%8d\<close> is computed.
\<close>

subsection \<open>Formatted output\<close>

definition digit_char :: "nat \<Rightarrow> char" where
  "digit_char d = ''0123456789'' ! d"

fun dec_digits :: "nat \<Rightarrow> string" where
  "dec_digits k = (if k < 10 then [digit_char k]
                   else dec_digits (k div 10) @ [digit_char (k mod 10)])"

declare dec_digits.simps [simp del]

text \<open>\<open>%d\<close>: an optional minus sign and the decimal digits.\<close>

definition fmt_d :: "int \<Rightarrow> string" where
  "fmt_d i = (if i < 0 then CHR ''-'' # dec_digits (nat (- i)) else dec_digits (nat i))"

text \<open>
  A minimum field width pads with blanks on the left and never truncates: a text
  longer than the width is written whole.
\<close>

definition pad :: "nat \<Rightarrow> string \<Rightarrow> string" where
  "pad w s = replicate (w - length s) CHR '' '' @ s"

text \<open>\<open>%8d\<close>.\<close>

definition fmt_8d :: "int \<Rightarrow> string" where
  "fmt_8d i = pad 8 (fmt_d i)"

text \<open>
  The text of a format made of one \<open>%8d\<close> for each value and a final newline,
  such as \<open>"%8d%8d\n"\<close> for two values.
\<close>

definition line_8d :: "int list \<Rightarrow> string" where
  "line_8d vs = concat (map fmt_8d vs) @ ''\<newline>''"

subsection \<open>The mesh\<close>

record Summen =
  anz_n :: int
  anz_e :: int

record 'f Nodes =
  node_nr :: int
  nx :: 'f
  ny :: 'f
  nz :: 'f

record Elements =
  elem_nr :: int
  elem_type :: int
  elem_group :: int
  nod :: "int list"

datatype error = OutOfBounds

text \<open>\<open>a[i]\<close> for a C \<open>int\<close> index.\<close>

definition rd :: "'a list \<Rightarrow> int \<Rightarrow> error + 'a" where
  "rd xs i = (if 0 \<le> i \<and> i < int (length xs) then Inr (xs ! nat i) else Inl OutOfBounds)"

text \<open>The reads \<open>a[k1], a[k2], ...\<close> of an argument list, in order.\<close>

fun rds :: "'a list \<Rightarrow> int list \<Rightarrow> error + 'a list" where
  "rds xs [] = Inr []"
| "rds xs (k # ks) =
     (case rd xs k of
        Inl x \<Rightarrow> Inl x
      | Inr v \<Rightarrow> (case rds xs ks of Inl x \<Rightarrow> Inl x | Inr vs \<Rightarrow> Inr (v # vs)))"

subsection \<open>The two output streams\<close>

record io =
  written :: string
  printed :: string

definition fprintf :: "string \<Rightarrow> io \<Rightarrow> io" where
  "fprintf txt s = s\<lparr>written := written s @ txt\<rparr>"

definition printf :: "string \<Rightarrow> io \<Rightarrow> io" where
  "printf txt s = s\<lparr>printed := printed s @ txt\<rparr>"

subsection \<open>The node loop (lines 27 to 30)\<close>

text \<open>
  One iteration prints \<open>node[i].nr\<close> and the coordinates stored at index
  \<open>node[i].nr\<close> of the same array.
\<close>

definition node_body :: "('f \<Rightarrow> string) \<Rightarrow> 'f Nodes list \<Rightarrow> int \<Rightarrow> io \<Rightarrow> error + io" where
  "node_body f16_3 node i s =
     (case rd node i of
        Inl x \<Rightarrow> Inl x
      | Inr ni \<Rightarrow>
          (case rd node (node_nr ni) of
             Inl x \<Rightarrow> Inl x
           | Inr nn \<Rightarrow>
               Inr (fprintf (fmt_8d (node_nr ni) @ f16_3 (nx nn) @ f16_3 (ny nn)
                             @ f16_3 (nz nn) @ ''\<newline>'') s)))"

function node_loop ::
  "('f \<Rightarrow> string) \<Rightarrow> 'f Nodes list \<Rightarrow> int \<Rightarrow> int \<Rightarrow> io \<Rightarrow> error + io" where
  "node_loop f16_3 node cnt i s =
     (if i < cnt then
        (case node_body f16_3 node i s of
           Inl x \<Rightarrow> Inl x
         | Inr s' \<Rightarrow> node_loop f16_3 node cnt (i + 1) s')
      else Inr s)"
  by pat_completeness auto
termination
  by (relation "measure (\<lambda>(f16_3, node, cnt, i, s). nat (cnt - i))") auto

declare node_loop.simps [simp del]

subsection \<open>The element loop (lines 36 to 75)\<close>

definition elem_body :: "Elements \<Rightarrow> io \<Rightarrow> error + io" where
  "elem_body el s =
     (if elem_type el = 1 then
        (case rds (nod el) [0, 1, 2, 3, 4, 5, 6, 7] of
           Inl x \<Rightarrow> Inl x
         | Inr vs \<Rightarrow> Inr (fprintf (line_8d (elem_nr el # elem_group el # vs)) s))
      else if elem_type el = 3 then
        (case rds (nod el) [0, 1, 2, 3] of
           Inl x \<Rightarrow> Inl x
         | Inr vs \<Rightarrow> Inr (fprintf (line_8d (elem_nr el # elem_group el # vs)) s))
      else if elem_type el = 4 then
        (case rds (nod el) [0, 1, 2, 3, 4, 5, 6, 7, 8, 9] of
           Inl x \<Rightarrow> Inl x
         | Inr vs \<Rightarrow>
             (case rds (nod el) [10, 11, 16, 17, 18, 19, 12, 13, 14, 15] of
                Inl x \<Rightarrow> Inl x
              | Inr ws \<Rightarrow>
                  Inr (fprintf (line_8d ws)
                        (fprintf (line_8d vs)
                          (fprintf (line_8d [elem_nr el, elem_group el]) s)))))
      else if elem_type el = 6 then
        (case rds (nod el) [0, 1, 2, 3, 4, 5, 6, 8, 9, 7] of
           Inl x \<Rightarrow> Inl x
         | Inr vs \<Rightarrow>
             Inr (fprintf (line_8d vs)
                   (fprintf (line_8d [elem_nr el, elem_group el]) s)))
      else
        Inr (printf ('' elem not a known type ('' @ fmt_d (elem_type el) @ '')\<newline>'') s))"

function elem_loop :: "Elements list \<Rightarrow> int \<Rightarrow> int \<Rightarrow> io \<Rightarrow> error + io" where
  "elem_loop elem cnt i s =
     (if i < cnt then
        (case rd elem i of
           Inl x \<Rightarrow> Inl x
         | Inr el \<Rightarrow>
             (case elem_body el s of
                Inl x \<Rightarrow> Inl x
              | Inr s' \<Rightarrow> elem_loop elem cnt (i + 1) s'))
      else Inr s)"
  by pat_completeness auto
termination
  by (relation "measure (\<lambda>(elem, cnt, i, s). nat (cnt - i))") auto

declare elem_loop.simps [simp del]

subsection \<open>The function\<close>

text \<open>
  \<open>status\<close> is the value returned, \<open>datout\<close> the caller's buffer after the call,
  \<open>handle1\<close> the bytes written to the file (\<open>None\<close> when it was not opened) and
  \<open>stdout\<close> the bytes printed. The call \<open>sprintf (datout, "%s.dyn", datout)\<close> reads
  the buffer it writes; it is taken to append the suffix, as the author means it to,
  in a buffer long enough to hold it. \<open>fopen_w\<close> tells whether the path can be opened
  for writing; the mode \<open>"w+b"\<close> empties the file and writes bytes as they are. The
  argument \<open>lcase\<close> may be of any type.
\<close>

record outcome =
  status :: int
  datout :: string
  handle1 :: "string option"
  stdout :: string

definition write2dyna ::
  "(string \<Rightarrow> bool) \<Rightarrow> ('f \<Rightarrow> string) \<Rightarrow> string \<Rightarrow> Summen \<Rightarrow> 'f Nodes list
     \<Rightarrow> Elements list \<Rightarrow> 'd \<Rightarrow> error + outcome" where
  "write2dyna fopen_w f16_3 stem anz node elem lcase =
     (let path = stem @ ''.dyn'' in
      if \<not> fopen_w path then
        Inr \<lparr>status = - 1, datout = path, handle1 = None,
             stdout = ''\<newline>The output file \"'' @ path @ ''\" could not be opened.\<newline>\<newline>''\<rparr>
      else
        let s0 = printf ''\<newline> write ls-dyna data  \<newline>''
                   (printf (''\<newline>'' @ path @ '' opened\<newline>'') \<lparr>written = [], printed = []\<rparr>)
        in
        (case (if 0 < anz_n anz
               then node_loop f16_3 node (anz_n anz) 0 (fprintf ''*NODE\<newline>'' s0)
               else Inr s0) of
           Inl x \<Rightarrow> Inl x
         | Inr s1 \<Rightarrow>
             (case (if 0 < anz_e anz
                    then elem_loop elem (anz_e anz) 0 (fprintf ''*ELEMENT_SOLID\<newline>'' s1)
                    else Inr s1) of
                Inl x \<Rightarrow> Inl x
              | Inr s2 \<Rightarrow>
                  Inr \<lparr>status = 1, datout = path, handle1 = Some (written s2),
                       stdout = printed s2\<rparr>)))"

section \<open>Notions used to state the properties\<close>

subsection \<open>Inputs on which every read is inside its array\<close>

text \<open>
  \<open>slots xs ks\<close> are the values at the positions \<open>ks\<close> of an array, in that order.
  An element passes \<open>elem_ok\<close> when its \<open>nod\<close> array holds every slot that the branch
  for its type reads: 8, 4, 20 or 10 slots; the last branch reads none. A node entry
  passes \<open>node_ok\<close> when its number is an index of the node array. \<open>nodes_ok\<close> and
  \<open>elems_ok\<close> ask this of the first \<open>anz->n\<close> and \<open>anz->e\<close> entries, which must exist.
  Lemmas \<open>write2dyna_ok\<close> and \<open>write2dyna_undefined\<close> show that these are exactly the
  inputs on which the function, once the file is open, reads no array out of bounds.
\<close>

definition slots :: "'a list \<Rightarrow> nat list \<Rightarrow> 'a list" where
  "slots xs ks = map (\<lambda>k. xs ! k) ks"

definition elem_ok :: "Elements \<Rightarrow> bool" where
  "elem_ok el =
     (if elem_type el = 1 then 8 \<le> length (nod el)
      else if elem_type el = 3 then 4 \<le> length (nod el)
      else if elem_type el = 4 then 20 \<le> length (nod el)
      else if elem_type el = 6 then 10 \<le> length (nod el)
      else True)"

definition node_ok :: "'f Nodes list \<Rightarrow> 'f Nodes \<Rightarrow> bool" where
  "node_ok node ni = (0 \<le> node_nr ni \<and> node_nr ni < int (length node))"

definition nodes_ok :: "Summen \<Rightarrow> 'f Nodes list \<Rightarrow> bool" where
  "nodes_ok anz node =
     (anz_n anz \<le> int (length node) \<and> list_all (node_ok node) (take (nat (anz_n anz)) node))"

definition elems_ok :: "Summen \<Rightarrow> Elements list \<Rightarrow> bool" where
  "elems_ok anz elem =
     (anz_e anz \<le> int (length elem) \<and> list_all elem_ok (take (nat (anz_e anz)) elem))"

subsection \<open>What one loop iteration and one section contribute\<close>

text \<open>
  \<open>elem_text el\<close> and \<open>elem_diag el\<close> are the bytes that the loop body appends to the
  file and to the standard output for the element \<open>el\<close>: the body run on empty
  streams. \<open>emit f c\<close> appends \<open>f\<close> to the file and \<open>c\<close> to the standard output.
\<close>

definition elem_text :: "Elements \<Rightarrow> string" where
  "elem_text el =
     (case elem_body el \<lparr>written = [], printed = []\<rparr> of Inl x \<Rightarrow> [] | Inr s \<Rightarrow> written s)"

definition elem_diag :: "Elements \<Rightarrow> string" where
  "elem_diag el =
     (case elem_body el \<lparr>written = [], printed = []\<rparr> of Inl x \<Rightarrow> [] | Inr s \<Rightarrow> printed s)"

definition emit :: "string \<Rightarrow> string \<Rightarrow> io \<Rightarrow> io" where
  "emit f c s = \<lparr>written = written s @ f, printed = printed s @ c\<rparr>"

definition node_text :: "('f \<Rightarrow> string) \<Rightarrow> 'f Nodes list \<Rightarrow> 'f Nodes \<Rightarrow> string" where
  "node_text f16_3 node ni =
     fmt_8d (node_nr ni) @ f16_3 (nx (node ! nat (node_nr ni)))
       @ f16_3 (ny (node ! nat (node_nr ni))) @ f16_3 (nz (node ! nat (node_nr ni))) @ ''\<newline>''"

definition node_section :: "('f \<Rightarrow> string) \<Rightarrow> Summen \<Rightarrow> 'f Nodes list \<Rightarrow> string" where
  "node_section f16_3 anz node =
     (if 0 < anz_n anz
      then ''*NODE\<newline>'' @ concat (map (node_text f16_3 node) (take (nat (anz_n anz)) node))
      else [])"

definition elem_section :: "Summen \<Rightarrow> Elements list \<Rightarrow> string" where
  "elem_section anz elem =
     (if 0 < anz_e anz
      then ''*ELEMENT_SOLID\<newline>'' @ concat (map elem_text (take (nat (anz_e anz)) elem))
      else [])"

definition banner :: "string \<Rightarrow> string" where
  "banner path = ''\<newline>'' @ path @ '' opened\<newline>'' @ ''\<newline> write ls-dyna data  \<newline>''"

definition diagnostics :: "Summen \<Rightarrow> Elements list \<Rightarrow> string" where
  "diagnostics anz elem = concat (map elem_diag (take (nat (anz_e anz)) elem))"

subsection \<open>A stand-in for \<open>%16.3f\<close> on whole numbers\<close>

text \<open>
  The examples need one concrete coordinate type and its text. They use coordinates
  that are whole numbers, for which \<open>%16.3f\<close> prints the integer, a point and three
  zeros, padded to sixteen columns.
\<close>

definition whole_16_3f :: "int \<Rightarrow> string" where
  "whole_16_3f v = pad 16 (fmt_d v @ ''.000'')"

text \<open>The examples run where every path can be opened.\<close>

definition any_path :: "string \<Rightarrow> bool" where
  "any_path p = True"

subsection \<open>The lines of a text\<close>

text \<open>
  \<open>text_lines\<close> cuts a text at its newlines; a last piece without a newline counts as a
  line when it is not empty. \<open>node_line\<close> is a node record without its newline.
  \<open>digit\<close> holds of the ten decimal digits.
\<close>

fun lines_from :: "string \<Rightarrow> string \<Rightarrow> string list" where
  "lines_from cur [] = (if cur = [] then [] else [cur])"
| "lines_from cur (c # cs) =
     (if c = CHR ''\<newline>'' then cur # lines_from [] cs else lines_from (cur @ [c]) cs)"

definition text_lines :: "string \<Rightarrow> string list" where
  "text_lines txt = lines_from [] txt"

definition digit :: "char \<Rightarrow> bool" where
  "digit c = (c \<in> set ''0123456789'')"

definition node_line :: "('f \<Rightarrow> string) \<Rightarrow> 'f Nodes list \<Rightarrow> 'f Nodes \<Rightarrow> string" where
  "node_line f16_3 node ni =
     fmt_8d (node_nr ni) @ f16_3 (nx (node ! nat (node_nr ni)))
       @ f16_3 (ny (node ! nat (node_nr ni))) @ f16_3 (nz (node ! nat (node_nr ni)))"

section \<open>A decoder for the format\<close>

text \<open>
  Modelled from the spec: the mesh decoder of its section 4.5, which the repository
  does not contain. The spec asks that it read the section headers to know whether
  node or element records follow, cut every line into the columns of the formatter,
  read the integers back, know how many lines a record takes, and fail with
  \<open>MalformedRecord\<close> on a line that does not fit. The definitions below do that; the
  reading of a sixteen-column coordinate field belongs to the C library and is a
  parameter, as its printing is.
\<close>

text \<open>Modelled from the spec: the value of a decimal digit, 10 for any other character.\<close>

definition digit_val :: "char \<Rightarrow> nat" where
  "digit_val c = length (takeWhile (\<lambda>d. d \<noteq> c) ''0123456789'')"

text \<open>Modelled from the spec: reading back a run of digits.\<close>

definition parse_nat :: "string \<Rightarrow> nat option" where
  "parse_nat s =
     (if s \<noteq> [] \<and> list_all (\<lambda>c. digit_val c < 10) s
      then Some (foldl (\<lambda>a c. 10 * a + digit_val c) 0 s) else None)"

text \<open>Modelled from the spec: reading back the text of \<open>%d\<close>.\<close>

definition parse_int :: "string \<Rightarrow> int option" where
  "parse_int s =
     (if s \<noteq> [] \<and> hd s = CHR ''-'' then map_option (\<lambda>k. - int k) (parse_nat (tl s))
      else map_option int (parse_nat s))"

text \<open>Modelled from the spec: reading back one right-justified integer field.\<close>

definition parse_field :: "string \<Rightarrow> int option" where
  "parse_field s = parse_int (dropWhile (\<lambda>c. c = CHR '' '') s)"

text \<open>
  Modelled from the spec: the integer fields of a line cut every eight columns; a
  line whose length is not a multiple of eight has none.
\<close>

function fields :: "string \<Rightarrow> int list option" where
  "fields s =
     (if s = [] then Some []
      else if length s < 8 then None
      else (case parse_field (take 8 s) of
              None \<Rightarrow> None
            | Some v \<Rightarrow> map_option (Cons v) (fields (drop 8 s))))"
  by pat_completeness auto
termination
  by (relation "measure length") auto

declare fields.simps [simp del]

text \<open>Modelled from the spec: the error of the decoder.\<close>

datatype decode_error = MalformedRecord

text \<open>
  Modelled from the spec: what the decoder expects next. After the two-field header
  of a 20-node hexahedron it expects the first line of ten node numbers
  (\<open>Hex20Head\<close>), then the second (\<open>Hex20Mid\<close>).
\<close>

datatype mode = Outside | InNodes | InElems | Hex20Head int int | Hex20Mid int int "int list"

text \<open>
  Modelled from the spec: the decoded mesh, node records (number and the three
  coordinates) and elements, both in file order.
\<close>

type_synonym 'f decoded = "(int \<times> 'f \<times> 'f \<times> 'f) list \<times> Elements list"

definition add_node ::
  "int \<times> 'f \<times> 'f \<times> 'f \<Rightarrow> decode_error + 'f decoded \<Rightarrow> decode_error + 'f decoded" where
  "add_node nd r = (case r of Inl x \<Rightarrow> Inl x | Inr (ns, es) \<Rightarrow> Inr (nd # ns, es))"

definition add_elem :: "Elements \<Rightarrow> decode_error + 'f decoded \<Rightarrow> decode_error + 'f decoded" where
  "add_elem el r = (case r of Inl x \<Rightarrow> Inl x | Inr (ns, es) \<Rightarrow> Inr (ns, el # es))"

text \<open>
  Modelled from the spec: the decoder, line by line. A node record is a line of
  exactly 56 columns, cut into one integer field of eight columns and three
  coordinate fields of sixteen; any other length is a \<open>MalformedRecord\<close>. The reading
  of a coordinate field is the parameter \<open>read_f\<close>, the counterpart of the parameter
  for \<open>%16.3f\<close>. A line of ten fields in the element section is an 8-node hexahedron,
  one of six fields a tetrahedron, and one of two fields the header of a 20-node
  hexahedron, whose second line is put back into slot order. The text alone cannot
  tell such a header from the header of a wedge, so wedges are not decoded.
\<close>

fun decode_lines ::
  "(string \<Rightarrow> 'f option) \<Rightarrow> mode \<Rightarrow> string list \<Rightarrow> decode_error + 'f decoded" where
  "decode_lines read_f (Hex20Head nr g) [] = Inl MalformedRecord"
| "decode_lines read_f (Hex20Mid nr g vs) [] = Inl MalformedRecord"
| "decode_lines read_f m [] = Inr ([], [])"
| "decode_lines read_f (Hex20Head nr g) (l # ls) =
     (case fields l of
        None \<Rightarrow> Inl MalformedRecord
      | Some vs \<Rightarrow>
          if length vs = 10 then decode_lines read_f (Hex20Mid nr g vs) ls
          else Inl MalformedRecord)"
| "decode_lines read_f (Hex20Mid nr g vs) (l # ls) =
     (case fields l of
        None \<Rightarrow> Inl MalformedRecord
      | Some ws \<Rightarrow>
          if length ws = 10
          then add_elem \<lparr>elem_nr = nr, elem_type = 4, elem_group = g,
                          nod = vs @ slots ws [0, 1, 6, 7, 8, 9, 2, 3, 4, 5]\<rparr>
                 (decode_lines read_f InElems ls)
          else Inl MalformedRecord)"
| "decode_lines read_f m (l # ls) =
     (if l = ''*NODE'' then decode_lines read_f InNodes ls
      else if l = ''*ELEMENT_SOLID'' then decode_lines read_f InElems ls
      else if m = InNodes then
        (if length l \<noteq> 56 then Inl MalformedRecord
         else (case parse_field (take 8 l) of
                 None \<Rightarrow> Inl MalformedRecord
               | Some i \<Rightarrow>
                   (case read_f (take 16 (drop 8 l)) of
                      None \<Rightarrow> Inl MalformedRecord
                    | Some x \<Rightarrow>
                        (case read_f (take 16 (drop 24 l)) of
                           None \<Rightarrow> Inl MalformedRecord
                         | Some y \<Rightarrow>
                             (case read_f (take 16 (drop 40 l)) of
                                None \<Rightarrow> Inl MalformedRecord
                              | Some z \<Rightarrow>
                                  add_node (i, x, y, z) (decode_lines read_f InNodes ls))))))
      else if m = InElems then
        (case fields l of
           None \<Rightarrow> Inl MalformedRecord
         | Some fs \<Rightarrow>
             if length fs = 10
             then add_elem \<lparr>elem_nr = fs ! 0, elem_type = 1, elem_group = fs ! 1,
                             nod = drop 2 fs\<rparr> (decode_lines read_f InElems ls)
             else if length fs = 6
             then add_elem \<lparr>elem_nr = fs ! 0, elem_type = 3, elem_group = fs ! 1,
                             nod = drop 2 fs\<rparr> (decode_lines read_f InElems ls)
             else if length fs = 2 then decode_lines read_f (Hex20Head (fs ! 0) (fs ! 1)) ls
             else Inl MalformedRecord)
      else Inl MalformedRecord)"

text \<open>Modelled from the spec: the decoder of a whole file.\<close>

definition decode :: "(string \<Rightarrow> 'f option) \<Rightarrow> string \<Rightarrow> decode_error + 'f decoded" where
  "decode read_f txt = decode_lines read_f Outside (text_lines txt)"

subsection \<open>The meshes that are read back whole\<close>

text \<open>
  \<open>fits8\<close> holds of the integers that \<open>%8d\<close> prints in at most eight columns. An
  element is \<open>plain_elem\<close> when it is of type 1, 3 or 4 with exactly 8, 4 or 20 node
  slots and every number within eight columns. A coordinate \<open>reads_back\<close> when its
  text takes exactly sixteen columns and is read as the same coordinate. A node entry
  is \<open>plain_node\<close> when its number fits eight columns and the three coordinates found
  at the index equal to its number read back; \<open>node_coords\<close> is the record expected
  for it.
\<close>

definition fits8 :: "int \<Rightarrow> bool" where
  "fits8 v = (- 9999999 \<le> v \<and> v \<le> 99999999)"

definition plain_elem :: "Elements \<Rightarrow> bool" where
  "plain_elem el =
     ((elem_type el = 1 \<and> length (nod el) = 8 \<or> elem_type el = 3 \<and> length (nod el) = 4 \<or>
       elem_type el = 4 \<and> length (nod el) = 20) \<and>
      fits8 (elem_nr el) \<and> fits8 (elem_group el) \<and> list_all fits8 (nod el))"

definition reads_back :: "('f \<Rightarrow> string) \<Rightarrow> (string \<Rightarrow> 'f option) \<Rightarrow> 'f \<Rightarrow> bool" where
  "reads_back f16_3 read_f v = (length (f16_3 v) = 16 \<and> read_f (f16_3 v) = Some v)"

definition plain_node ::
  "('f \<Rightarrow> string) \<Rightarrow> (string \<Rightarrow> 'f option) \<Rightarrow> 'f Nodes list \<Rightarrow> 'f Nodes \<Rightarrow> bool" where
  "plain_node f16_3 read_f node ni =
     (fits8 (node_nr ni) \<and>
      reads_back f16_3 read_f (nx (node ! nat (node_nr ni))) \<and>
      reads_back f16_3 read_f (ny (node ! nat (node_nr ni))) \<and>
      reads_back f16_3 read_f (nz (node ! nat (node_nr ni))))"

definition node_coords :: "'f Nodes list \<Rightarrow> 'f Nodes \<Rightarrow> int \<times> 'f \<times> 'f \<times> 'f" where
  "node_coords node ni =
     (node_nr ni, nx (node ! nat (node_nr ni)), ny (node ! nat (node_nr ni)),
      nz (node ! nat (node_nr ni)))"

subsection \<open>Two more stand-ins for the C library\<close>

text \<open>
  \<open>parse_whole\<close> reads back the text of a whole number with three zero decimals, as
  \<open>whole_16_3f\<close> prints it. \<open>dyadic_16_3f\<close> is the text of \<open>%16.3f\<close> for the number
  \<open>m / 2 ^ k\<close>, given as the pair \<open>(m, k)\<close>: the nearest multiple of a thousandth, the
  even one when two are equally near. Every finite double is such a number.
\<close>

definition parse_whole :: "string \<Rightarrow> int option" where
  "parse_whole s =
     (let t = dropWhile (\<lambda>c. c = CHR '' '') s; k = length t - 4
      in if 4 < length t \<and> drop k t = ''.000'' then parse_int (take k t) else None)"

definition dyadic_16_3f :: "int \<times> nat \<Rightarrow> string" where
  "dyadic_16_3f v =
     (let m = fst v; k = snd v; n = nat \<bar>m\<bar> * 1000; q = n div 2 ^ k; r = n mod 2 ^ k;
          t = (if 2 ^ k < 2 * r \<or> (2 * r = 2 ^ k \<and> odd q) then q + 1 else q)
      in pad 16 ((if m < 0 then ''-'' else []) @ dec_digits (t div 1000) @ ''.''
                 @ [digit_char (t div 100 mod 10), digit_char (t div 10 mod 10),
                    digit_char (t mod 10)]))"

section \<open>The loops in closed form\<close>

lemma only_error: "(x::error) = OutOfBounds"
  by (cases x) simp

lemma rd_Inr: "0 \<le> i \<Longrightarrow> i < int (length xs) \<Longrightarrow> rd xs i = Inr (xs ! nat i)"
  by (simp add: rd_def)

lemma rd_Inl: "\<not> (0 \<le> i \<and> i < int (length xs)) \<Longrightarrow> rd xs i = Inl OutOfBounds"
  by (simp add: rd_def)

lemma rds_slots:
  "list_all (\<lambda>k. k < length xs) ks \<Longrightarrow> rds xs (map int ks) = Inr (slots xs ks)"
  by (induction ks) (simp_all add: rd_Inr slots_def)

lemma rds_slots_Inl:
  "\<not> list_all (\<lambda>k. k < length xs) ks \<Longrightarrow> rds xs (map int ks) = Inl OutOfBounds"
proof (induction ks)
  case Nil
  then show ?case by simp
next
  case (Cons k ks)
  show ?case
  proof (cases "k < length xs")
    case True
    with Cons show ?thesis by (simp add: rd_Inr)
  next
    case False
    then show ?thesis by (simp add: rd_Inl)
  qed
qed

lemma slot_lists:
  "[0, 1, 2, 3, 4, 5, 6, 7] = map int [0, 1, 2, 3, 4, 5, 6, 7]"
  "[0, 1, 2, 3] = map int [0, 1, 2, 3]"
  "[0, 1, 2, 3, 4, 5, 6, 7, 8, 9] = map int [0, 1, 2, 3, 4, 5, 6, 7, 8, 9]"
  "[10, 11, 16, 17, 18, 19, 12, 13, 14, 15] = map int [10, 11, 16, 17, 18, 19, 12, 13, 14, 15]"
  "[0, 1, 2, 3, 4, 5, 6, 8, 9, 7] = map int [0, 1, 2, 3, 4, 5, 6, 8, 9, 7]"
  by simp_all

lemma elem_body_type1:
  "elem_type el = 1 \<Longrightarrow> 8 \<le> length (nod el) \<Longrightarrow>
   elem_body el s = Inr (fprintf (line_8d (elem_nr el # elem_group el # slots (nod el) [0, 1, 2, 3, 4, 5, 6, 7])) s)"
  unfolding elem_body_def slot_lists by (simp add: rds_slots del: rds.simps list.map length_greater_0_conv)

lemma elem_body_type3:
  "elem_type el = 3 \<Longrightarrow> 4 \<le> length (nod el) \<Longrightarrow>
   elem_body el s = Inr (fprintf (line_8d (elem_nr el # elem_group el # slots (nod el) [0, 1, 2, 3])) s)"
  unfolding elem_body_def slot_lists by (simp add: rds_slots del: rds.simps list.map length_greater_0_conv)

lemma elem_body_type4:
  "elem_type el = 4 \<Longrightarrow> 20 \<le> length (nod el) \<Longrightarrow>
   elem_body el s =
     Inr (fprintf (line_8d [elem_nr el, elem_group el]
                   @ line_8d (slots (nod el) [0, 1, 2, 3, 4, 5, 6, 7, 8, 9])
                   @ line_8d (slots (nod el) [10, 11, 16, 17, 18, 19, 12, 13, 14, 15])) s)"
  unfolding elem_body_def slot_lists by (simp add: rds_slots fprintf_def del: rds.simps list.map length_greater_0_conv)

lemma elem_body_type6:
  "elem_type el = 6 \<Longrightarrow> 10 \<le> length (nod el) \<Longrightarrow>
   elem_body el s =
     Inr (fprintf (line_8d [elem_nr el, elem_group el]
                   @ line_8d (slots (nod el) [0, 1, 2, 3, 4, 5, 6, 8, 9, 7])) s)"
  unfolding elem_body_def slot_lists by (simp add: rds_slots fprintf_def del: rds.simps list.map length_greater_0_conv)

lemma elem_body_other:
  "elem_type el \<notin> {1, 3, 4, 6} \<Longrightarrow>
   elem_body el s = Inr (printf ('' elem not a known type ('' @ fmt_d (elem_type el) @ '')\<newline>'') s)"
  by (simp add: elem_body_def)

lemma elem_body_undefined: "\<not> elem_ok el \<Longrightarrow> elem_body el s = Inl OutOfBounds"
  unfolding elem_body_def elem_ok_def slot_lists
  by (auto simp add: rds_slots rds_slots_Inl only_error simp del: rds.simps list.map length_greater_0_conv split: if_splits sum.splits)

lemma emit_emit: "emit f' c' (emit f c s) = emit (f @ f') (c @ c') s"
  by (simp add: emit_def)

lemma fprintf_emit: "fprintf txt s = emit txt [] s"
  by (simp add: fprintf_def emit_def)

lemma printf_emit: "printf txt s = emit [] txt s"
  by (simp add: printf_def emit_def)

lemma elem_body_emit:
  assumes "elem_ok el"
  shows "elem_body el s = Inr (emit (elem_text el) (elem_diag el) s)"
proof -
  consider "elem_type el = 1" | "elem_type el = 3" | "elem_type el = 4" | "elem_type el = 6"
    | "elem_type el \<notin> {1, 3, 4, 6}"
    by auto
  then show ?thesis
  proof cases
    case 1
    with assms have "8 \<le> length (nod el)" by (simp add: elem_ok_def)
    with 1 show ?thesis
      by (simp add: elem_body_type1 elem_text_def elem_diag_def fprintf_emit emit_def)
  next
    case 2
    with assms have "4 \<le> length (nod el)" by (simp add: elem_ok_def)
    with 2 show ?thesis
      by (simp add: elem_body_type3 elem_text_def elem_diag_def fprintf_emit emit_def)
  next
    case 3
    with assms have "20 \<le> length (nod el)" by (simp add: elem_ok_def)
    with 3 show ?thesis
      by (simp add: elem_body_type4 elem_text_def elem_diag_def fprintf_emit emit_def)
  next
    case 4
    with assms have "10 \<le> length (nod el)" by (simp add: elem_ok_def)
    with 4 show ?thesis
      by (simp add: elem_body_type6 elem_text_def elem_diag_def fprintf_emit emit_def)
  next
    case 5
    then show ?thesis
      by (simp add: elem_body_other elem_text_def elem_diag_def printf_emit emit_def)
  qed
qed

lemma drop_take_step:
  assumes "0 \<le> i" "i < cnt" "cnt \<le> int (length xs)"
  shows "drop (nat i) (take (nat cnt) xs) = xs ! nat i # drop (nat (i + 1)) (take (nat cnt) xs)"
proof -
  have lt: "nat i < length (take (nat cnt) xs)" using assms by simp
  have "nat (i + 1) = Suc (nat i)" using assms by simp
  moreover have "take (nat cnt) xs ! nat i = xs ! nat i" using assms by simp
  ultimately show ?thesis using Cons_nth_drop_Suc [OF lt] by simp
qed

lemma elem_loop_emit:
  "0 \<le> i \<Longrightarrow> cnt \<le> int (length elem) \<Longrightarrow> list_all elem_ok (take (nat cnt) elem) \<Longrightarrow>
   elem_loop elem cnt i s =
     Inr (emit (concat (map elem_text (drop (nat i) (take (nat cnt) elem))))
               (concat (map elem_diag (drop (nat i) (take (nat cnt) elem)))) s)"
proof (induction elem cnt i s rule: elem_loop.induct)
  case (1 elem cnt i s)
  show ?case
  proof (cases "i < cnt")
    case False
    then have "drop (nat i) (take (nat cnt) elem) = []" by simp
    with False show ?thesis by (simp add: elem_loop.simps [of elem cnt i s] emit_def)
  next
    case True
    let ?el = "elem ! nat i"
    have r: "rd elem i = Inr ?el" using True 1 by (simp add: rd_Inr)
    have "?el \<in> set (take (nat cnt) elem)"
      using True 1 by (auto simp add: in_set_conv_nth intro!: exI [of _ "nat i"])
    with 1 have ok: "elem_ok ?el" by (simp add: list_all_iff)
    have b: "elem_body ?el s = Inr (emit (elem_text ?el) (elem_diag ?el) s)"
      using ok by (rule elem_body_emit)
    have ih: "elem_loop elem cnt (i + 1) (emit (elem_text ?el) (elem_diag ?el) s) =
        Inr (emit (concat (map elem_text (drop (nat (i + 1)) (take (nat cnt) elem))))
                  (concat (map elem_diag (drop (nat (i + 1)) (take (nat cnt) elem))))
                  (emit (elem_text ?el) (elem_diag ?el) s))"
      using "1.IH" [OF True r b] 1 by simp
    have d: "drop (nat i) (take (nat cnt) elem) = ?el # drop (nat (i + 1)) (take (nat cnt) elem)"
      using True 1 by (simp add: drop_take_step)
    show ?thesis
      using True r b ih by (simp add: elem_loop.simps [of elem cnt i s] d emit_emit)
  qed
qed

lemma node_body_emit:
  "0 \<le> i \<Longrightarrow> i < int (length node) \<Longrightarrow> node_ok node (node ! nat i) \<Longrightarrow>
   node_body F node i s = Inr (emit (node_text F node (node ! nat i)) [] s)"
  by (simp add: node_body_def rd_Inr node_ok_def node_text_def fprintf_emit)

lemma node_loop_emit:
  "0 \<le> i \<Longrightarrow> cnt \<le> int (length node) \<Longrightarrow> list_all (node_ok node) (take (nat cnt) node) \<Longrightarrow>
   node_loop F node cnt i s =
     Inr (emit (concat (map (node_text F node) (drop (nat i) (take (nat cnt) node)))) [] s)"
proof (induction F node cnt i s rule: node_loop.induct)
  case (1 F node cnt i s)
  show ?case
  proof (cases "i < cnt")
    case False
    then have "drop (nat i) (take (nat cnt) node) = []" by simp
    with False show ?thesis by (simp add: node_loop.simps [of F node cnt i s] emit_def)
  next
    case True
    let ?ni = "node ! nat i"
    have "?ni \<in> set (take (nat cnt) node)"
      using True 1 by (auto simp add: in_set_conv_nth intro!: exI [of _ "nat i"])
    with 1 have ok: "node_ok node ?ni" by (simp add: list_all_iff)
    have b: "node_body F node i s = Inr (emit (node_text F node ?ni) [] s)"
      using True 1 ok by (simp add: node_body_emit)
    have ih: "node_loop F node cnt (i + 1) (emit (node_text F node ?ni) [] s) =
        Inr (emit (concat (map (node_text F node) (drop (nat (i + 1)) (take (nat cnt) node)))) []
                  (emit (node_text F node ?ni) [] s))"
      using "1.IH" [OF True b] 1 by simp
    have d: "drop (nat i) (take (nat cnt) node) = ?ni # drop (nat (i + 1)) (take (nat cnt) node)"
      using True 1 by (simp add: drop_take_step)
    show ?thesis
      using True b ih by (simp add: node_loop.simps [of F node cnt i s] d emit_emit)
  qed
qed

lemma write2dyna_ok:
  assumes "fopen_w (stem @ ''.dyn'')" "nodes_ok anz node" "elems_ok anz elem"
  shows "write2dyna fopen_w F stem anz node elem lcase =
    Inr \<lparr>status = 1, datout = stem @ ''.dyn'',
         handle1 = Some (node_section F anz node @ elem_section anz elem),
         stdout = banner (stem @ ''.dyn'') @ diagnostics anz elem\<rparr>"
proof -
  let ?s0 = "emit [] (banner (stem @ ''.dyn'')) \<lparr>written = [], printed = []\<rparr>"
  have s0: "printf ''\<newline> write ls-dyna data  \<newline>''
             (printf (''\<newline>'' @ (stem @ ''.dyn'') @ '' opened\<newline>'') \<lparr>written = [], printed = []\<rparr>) = ?s0"
    by (simp add: printf_emit emit_emit banner_def)
  have n: "(if 0 < anz_n anz
            then node_loop F node (anz_n anz) 0 (fprintf ''*NODE\<newline>'' ?s0)
            else Inr ?s0) = Inr (emit (node_section F anz node) [] ?s0)"
    using assms(2) node_loop_emit [of 0 "anz_n anz" node F "fprintf ''*NODE\<newline>'' ?s0"]
    by (simp add: nodes_ok_def node_section_def fprintf_emit emit_emit)
  have e: "(if 0 < anz_e anz
            then elem_loop elem (anz_e anz) 0
                   (fprintf ''*ELEMENT_SOLID\<newline>'' (emit (node_section F anz node) [] ?s0))
            else Inr (emit (node_section F anz node) [] ?s0)) =
           Inr (emit (elem_section anz elem) (diagnostics anz elem)
                  (emit (node_section F anz node) [] ?s0))"
    using assms(3)
      elem_loop_emit [of 0 "anz_e anz" elem
        "fprintf ''*ELEMENT_SOLID\<newline>'' (emit (node_section F anz node) [] ?s0)"]
    by (simp add: elems_ok_def elem_section_def diagnostics_def fprintf_emit emit_emit)
  show ?thesis
    unfolding write2dyna_def Let_def s0 n
    using assms(1) by (simp add: e) (simp add: emit_def)
qed

lemma concat_map_split:
  assumes "i < length xs"
  shows "concat (map f xs) = concat (map f (take i xs)) @ f (xs ! i) @ concat (map f (drop (Suc i) xs))"
proof -
  have "concat (map f xs) = concat (map f (take i xs @ xs ! i # drop (Suc i) xs))"
    using id_take_nth_drop [OF assms] by simp
  then show ?thesis by simp
qed

lemma elem_section_split:
  assumes "elems_ok anz elem" "i < nat (anz_e anz)"
  shows "elem_section anz elem =
           ''*ELEMENT_SOLID\<newline>'' @ concat (map elem_text (take i elem)) @ elem_text (elem ! i)
             @ concat (map elem_text (drop (Suc i) (take (nat (anz_e anz)) elem)))"
proof -
  have len: "i < length (take (nat (anz_e anz)) elem)"
    using assms by (auto simp add: elems_ok_def)
  have "take i (take (nat (anz_e anz)) elem) = take i elem"
    using assms(2) by (simp add: min_def)
  moreover have "take (nat (anz_e anz)) elem ! i = elem ! i"
    using assms(2) by simp
  ultimately show ?thesis
    using assms(2) concat_map_split [OF len, of elem_text] by (simp add: elem_section_def)
qed

lemma elems_ok_nth: "elems_ok anz elem \<Longrightarrow> i < nat (anz_e anz) \<Longrightarrow> elem_ok (elem ! i)"
  by (auto simp add: elems_ok_def list_all_length)

lemma elem_text_type4:
  assumes "elem_type el = 4" "elem_ok el"
  shows "elem_text el = line_8d [elem_nr el, elem_group el]
                   @ line_8d (slots (nod el) [0, 1, 2, 3, 4, 5, 6, 7, 8, 9])
                   @ line_8d (slots (nod el) [10, 11, 16, 17, 18, 19, 12, 13, 14, 15])"
proof -
  from assms have "20 \<le> length (nod el)" by (simp add: elem_ok_def)
  with assms(1) show ?thesis
   by (simp add: elem_text_def elem_body_type4 fprintf_def)
qed

lemma elem_text_type1:
  assumes "elem_type el = 1" "elem_ok el"
  shows "elem_text el =
           line_8d (elem_nr el # elem_group el # slots (nod el) [0, 1, 2, 3, 4, 5, 6, 7])"
proof -
  from assms have "8 \<le> length (nod el)" by (simp add: elem_ok_def)
  with assms(1) show ?thesis
    by (simp add: elem_text_def elem_body_type1 fprintf_def)
qed

lemma elem_text_type3:
  assumes "elem_type el = 3" "elem_ok el"
  shows "elem_text el = line_8d (elem_nr el # elem_group el # slots (nod el) [0, 1, 2, 3])"
proof -
  from assms have "4 \<le> length (nod el)" by (simp add: elem_ok_def)
  with assms(1) show ?thesis
    by (simp add: elem_text_def elem_body_type3 fprintf_def)
qed

lemma elem_text_type6:
  assumes "elem_type el = 6" "elem_ok el"
  shows "elem_text el = line_8d [elem_nr el, elem_group el]
                   @ line_8d (slots (nod el) [0, 1, 2, 3, 4, 5, 6, 8, 9, 7])"
proof -
  from assms have "10 \<le> length (nod el)" by (simp add: elem_ok_def)
  with assms(1) show ?thesis
    by (simp add: elem_text_def elem_body_type6 fprintf_def)
qed

lemma node_body_undefined:
  "\<not> (0 \<le> i \<and> i < int (length node) \<and> node_ok node (node ! nat i)) \<Longrightarrow>
   node_body F node i s = Inl OutOfBounds"
  by (auto simp add: node_body_def rd_def node_ok_def)

lemma elem_loop_undefined:
  "0 \<le> i \<Longrightarrow> i \<le> j \<Longrightarrow> j < cnt \<Longrightarrow> \<not> (j < int (length elem) \<and> elem_ok (elem ! nat j)) \<Longrightarrow>
   elem_loop elem cnt i s = Inl OutOfBounds"
proof (induction elem cnt i s rule: elem_loop.induct)
  case (1 elem cnt i s)
  then have lt: "i < cnt" by simp
  show ?case
  proof (cases "i < int (length elem) \<and> elem_ok (elem ! nat i)")
    case False
    then show ?thesis
      using lt 1(2) by (auto simp add: elem_loop.simps [of elem cnt i s] rd_def elem_body_undefined)
  next
    case True
    then have r: "rd elem i = Inr (elem ! nat i)" using 1(2) by (simp add: rd_Inr)
    have b: "elem_body (elem ! nat i) s = Inr (emit (elem_text (elem ! nat i)) (elem_diag (elem ! nat i)) s)"
      using True by (simp add: elem_body_emit)
    from True 1(5) have "i \<noteq> j" by auto
    with 1(3) have "i + 1 \<le> j" by simp
    with "1.IH" [OF lt r b] 1 have "elem_loop elem cnt (i + 1)
        (emit (elem_text (elem ! nat i)) (elem_diag (elem ! nat i)) s) = Inl OutOfBounds"
      by simp
    then show ?thesis using lt r b by (simp add: elem_loop.simps [of elem cnt i s])
  qed
qed

lemma node_loop_undefined:
  "0 \<le> i \<Longrightarrow> i \<le> j \<Longrightarrow> j < cnt \<Longrightarrow>
   \<not> (j < int (length node) \<and> node_ok node (node ! nat j)) \<Longrightarrow>
   node_loop F node cnt i s = Inl OutOfBounds"
proof (induction F node cnt i s rule: node_loop.induct)
  case (1 F node cnt i s)
  then have lt: "i < cnt" by simp
  show ?case
  proof (cases "i < int (length node) \<and> node_ok node (node ! nat i)")
    case False
    then show ?thesis
      using lt 1(2) by (simp add: node_loop.simps [of F node cnt i s] node_body_undefined)
  next
    case True
    have b: "node_body F node i s = Inr (emit (node_text F node (node ! nat i)) [] s)"
      using True 1(2) by (simp add: node_body_emit)
    from True 1(5) have "i \<noteq> j" by auto
    with 1(3) have "i + 1 \<le> j" by simp
    with "1.IH" [OF lt b] 1 have "node_loop F node cnt (i + 1)
        (emit (node_text F node (node ! nat i)) [] s) = Inl OutOfBounds"
      by simp
    then show ?thesis using lt b by (simp add: node_loop.simps [of F node cnt i s])
  qed
qed

lemma bad_index:
  assumes "\<not> (cnt \<le> int (length xs) \<and> list_all P (take (nat cnt) xs))"
  shows "\<exists>j. 0 \<le> j \<and> j < cnt \<and> \<not> (j < int (length xs) \<and> P (xs ! nat j))"
proof (cases "cnt \<le> int (length xs)")
  case False
  then show ?thesis by (intro exI [of _ "int (length xs)"]) simp
next
  case True
  with assms obtain k where "k < length (take (nat cnt) xs)" "\<not> P (take (nat cnt) xs ! k)"
    by (auto simp add: list_all_length)
  then show ?thesis by (intro exI [of _ "int k"]) auto
qed

lemma write2dyna_undefined:
  assumes "fopen_w (stem @ ''.dyn'')" "\<not> (nodes_ok anz node \<and> elems_ok anz elem)"
  shows "write2dyna fopen_w F stem anz node elem lcase = Inl OutOfBounds"
proof (cases "nodes_ok anz node")
  case False
  then obtain j where j: "0 \<le> j" "j < anz_n anz"
      "\<not> (j < int (length node) \<and> node_ok node (node ! nat j))"
    using bad_index [of "anz_n anz" node "node_ok node"] by (auto simp add: nodes_ok_def)
  then have "node_loop F node (anz_n anz) 0 s = Inl OutOfBounds" for s
    using node_loop_undefined [of 0 j "anz_n anz" node F s] by simp
  then show ?thesis using assms(1) j by (simp add: write2dyna_def)
next
  case True
  with assms(2) have "\<not> elems_ok anz elem" by simp
  then obtain j where j: "0 \<le> j" "j < anz_e anz"
      "\<not> (j < int (length elem) \<and> elem_ok (elem ! nat j))"
    using bad_index [of "anz_e anz" elem elem_ok] by (auto simp add: elems_ok_def)
  then have e: "elem_loop elem (anz_e anz) 0 s = Inl OutOfBounds" for s
    using elem_loop_undefined [of 0 j "anz_e anz" elem s] by simp
  have n: "(if 0 < anz_n anz
            then node_loop F node (anz_n anz) 0 s
            else Inr s') = Inr (if 0 < anz_n anz then
                emit (concat (map (node_text F node) (take (nat (anz_n anz)) node))) [] s else s')" for s s'
    using True node_loop_emit [of 0 "anz_n anz" node F s]
    by (simp add: nodes_ok_def)
  show ?thesis using assms(1) j unfolding write2dyna_def Let_def n by (simp add: e)
qed

subsection \<open>Elements of unknown type\<close>

lemma elem_text_other: "elem_type el \<notin> {1, 3, 4, 6} \<Longrightarrow> elem_text el = []"
  by (simp add: elem_text_def elem_body_other printf_def)

lemma elem_diag_other:
  "elem_type el \<notin> {1, 3, 4, 6} \<Longrightarrow>
   elem_diag el = '' elem not a known type ('' @ fmt_d (elem_type el) @ '')\<newline>''"
  by (simp add: elem_diag_def elem_body_other printf_def)

lemma elem_diag_known:
  assumes "elem_type el \<in> {1, 3, 4, 6}" "elem_ok el"
  shows "elem_diag el = []"
proof -
  from assms(1) consider "elem_type el = 1" | "elem_type el = 3" | "elem_type el = 4"
    | "elem_type el = 6" by auto
  then show ?thesis
  proof cases
    case 1
    with assms(2) have "8 \<le> length (nod el)" by (simp add: elem_ok_def)
    with 1 show ?thesis by (simp add: elem_diag_def elem_body_type1 fprintf_def)
  next
    case 2
    with assms(2) have "4 \<le> length (nod el)" by (simp add: elem_ok_def)
    with 2 show ?thesis by (simp add: elem_diag_def elem_body_type3 fprintf_def)
  next
    case 3
    with assms(2) have "20 \<le> length (nod el)" by (simp add: elem_ok_def)
    with 3 show ?thesis by (simp add: elem_diag_def elem_body_type4 fprintf_def)
  next
    case 4
    with assms(2) have "10 \<le> length (nod el)" by (simp add: elem_ok_def)
    with 4 show ?thesis by (simp add: elem_diag_def elem_body_type6 fprintf_def)
  qed
qed

lemma concat_map_filter_empty:
  "(\<And>x. x \<in> set xs \<Longrightarrow> \<not> P x \<Longrightarrow> f x = []) \<Longrightarrow>
   concat (map f (filter P xs)) = concat (map f xs)"
  by (induction xs) simp_all

lemma concat_map_cong_set:
  "(\<And>x. x \<in> set xs \<Longrightarrow> f x = g x) \<Longrightarrow> concat (map f xs) = concat (map g xs)"
  by (induction xs) simp_all

section \<open>Characters, widths and lines of the output\<close>

lemma less_10_cases:
  "(d::nat) < 10 \<Longrightarrow> d = 0 \<or> d = 1 \<or> d = 2 \<or> d = 3 \<or> d = 4 \<or> d = 5 \<or> d = 6 \<or> d = 7 \<or> d = 8 \<or> d = 9"
  by arith

lemma digit_char_set: "d < 10 \<Longrightarrow> digit_char d \<in> set ''0123456789''"
  by (drule less_10_cases) (auto simp add: digit_char_def)

lemma dec_digits_set: "set (dec_digits k) \<subseteq> set ''0123456789''"
proof (induction k rule: dec_digits.induct)
  case (1 k)
  show ?case
  proof (cases "k < 10")
    case True
    then show ?thesis using digit_char_set [of k] by (simp add: dec_digits.simps [of k])
  next
    case False
    have "k mod 10 < 10" by simp
    then have "digit_char (k mod 10) \<in> set ''0123456789''" by (rule digit_char_set)
    with False 1 show ?thesis by (simp add: dec_digits.simps [of k])
  qed
qed

lemma dec_digits_not_Nil: "dec_digits k \<noteq> []"
  by (simp add: dec_digits.simps [of k])

lemma fmt_d_not_Nil: "fmt_d v \<noteq> []"
  by (simp add: fmt_d_def dec_digits_not_Nil)

lemma fmt_8d_not_Nil: "fmt_8d v \<noteq> []"
  by (simp add: fmt_8d_def pad_def fmt_d_not_Nil)

lemma lines_from_line:
  "CHR ''\<newline>'' \<notin> set l \<Longrightarrow> lines_from cur (l @ CHR ''\<newline>'' # rest) = (cur @ l) # lines_from [] rest"
  by (induction l arbitrary: cur) auto

lemma text_lines_line:
  "CHR ''\<newline>'' \<notin> set l \<Longrightarrow> text_lines (l @ CHR ''\<newline>'' # rest) = l # text_lines rest"
  by (simp add: text_lines_def lines_from_line)

lemma dec_digits_digit: "c \<in> set (dec_digits k) \<Longrightarrow> digit c"
  unfolding digit_def using dec_digits_set [of k] by (rule subsetD)

lemma fmt_d_char: "c \<in> set (fmt_d v) \<Longrightarrow> c = CHR ''-'' \<or> digit c"
  by (cases "v < 0") (auto simp add: fmt_d_def dest: dec_digits_digit)

lemma fmt_8d_char: "c \<in> set (fmt_8d v) \<Longrightarrow> c = CHR '' '' \<or> c = CHR ''-'' \<or> digit c"
  by (auto simp add: fmt_8d_def pad_def dest: fmt_d_char split: if_splits)

lemma fmt_8d_no_newline: "CHR ''\<newline>'' \<notin> set (fmt_8d v)"
proof
  assume "CHR ''\<newline>'' \<in> set (fmt_8d v)"
  then have "CHR ''\<newline>'' = CHR '' '' \<or> CHR ''\<newline>'' = CHR ''-'' \<or> digit CHR ''\<newline>''"
    by (rule fmt_8d_char)
  then show False by (simp add: digit_def)
qed

lemma fmt_8d_no_star: "CHR ''*'' \<notin> set (fmt_8d v)"
proof
  assume "CHR ''*'' \<in> set (fmt_8d v)"
  then have "CHR ''*'' = CHR '' '' \<or> CHR ''*'' = CHR ''-'' \<or> digit CHR ''*''"
    by (rule fmt_8d_char)
  then show False by (simp add: digit_def)
qed

lemma digit_val_digit_char: "d < 10 \<Longrightarrow> digit_val (digit_char d) = d"
  by (drule less_10_cases) (auto simp add: digit_val_def digit_char_def)

lemma dec_digits_all_digits: "list_all (\<lambda>c. digit_val c < 10) (dec_digits k)"
proof (induction k rule: dec_digits.induct)
  case (1 k)
  show ?case
  proof (cases "k < 10")
    case True
    then show ?thesis by (simp add: dec_digits.simps [of k] digit_val_digit_char)
  next
    case False
    with 1 show ?thesis by (simp add: dec_digits.simps [of k] digit_val_digit_char)
  qed
qed

lemma dec_digits_value: "foldl (\<lambda>a c. 10 * a + digit_val c) 0 (dec_digits k) = k"
proof (induction k rule: dec_digits.induct)
  case (1 k)
  show ?case
  proof (cases "k < 10")
    case True
    then show ?thesis by (simp add: dec_digits.simps [of k] digit_val_digit_char)
  next
    case False
    with 1 show ?thesis by (simp add: dec_digits.simps [of k] digit_val_digit_char)
  qed
qed

lemma parse_nat_dec_digits: "parse_nat (dec_digits k) = Some k"
  by (simp add: parse_nat_def dec_digits_not_Nil dec_digits_all_digits dec_digits_value)

lemma dec_digits_hd: "hd (dec_digits k) \<noteq> CHR ''-'' \<and> hd (dec_digits k) \<noteq> CHR '' ''"
proof -
  have "hd (dec_digits k) \<in> set (dec_digits k)" by (simp add: dec_digits_not_Nil)
  then have "digit (hd (dec_digits k))" by (rule dec_digits_digit)
  then show ?thesis by (auto simp add: digit_def)
qed

lemma parse_int_fmt_d: "parse_int (fmt_d v) = Some v"
  using dec_digits_hd [of "nat v"]
  by (simp add: parse_int_def fmt_d_def parse_nat_dec_digits dec_digits_not_Nil)

lemma fmt_d_hd: "hd (fmt_d v) \<noteq> CHR '' ''"
  using dec_digits_hd [of "nat v"] by (simp add: fmt_d_def)

lemma parse_field_fmt_8d: "parse_field (fmt_8d v) = Some v"
proof -
  obtain c cs where f: "fmt_d v = c # cs" using fmt_d_not_Nil [of v] by (cases "fmt_d v") auto
  with fmt_d_hd [of v] have "c \<noteq> CHR '' ''" by simp
  then have "dropWhile (\<lambda>c. c = CHR '' '') (fmt_8d v) = fmt_d v"
    by (simp add: fmt_8d_def pad_def f dropWhile_append)
  then show ?thesis by (simp add: parse_field_def parse_int_fmt_d)
qed

lemma dec_digits_length: "k < 10 ^ Suc m \<Longrightarrow> length (dec_digits k) \<le> Suc m"
proof (induction m arbitrary: k)
  case 0
  then show ?case by (simp add: dec_digits.simps [of k])
next
  case (Suc m)
  show ?case
  proof (cases "k < 10")
    case True
    then show ?thesis by (simp add: dec_digits.simps [of k])
  next
    case False
    from Suc.prems have "k div 10 < 10 ^ Suc m" by (simp add: less_mult_imp_div_less)
    then have "length (dec_digits (k div 10)) \<le> Suc m" by (rule Suc.IH)
    with False show ?thesis by (simp add: dec_digits.simps [of k])
  qed
qed

lemma fmt_d_length: "fits8 v \<Longrightarrow> length (fmt_d v) \<le> 8"
proof (cases "v < 0")
  case True
  assume "fits8 v"
  with True have "nat (- v) < 10 ^ Suc 6" by (simp add: fits8_def)
  then have "length (dec_digits (nat (- v))) \<le> Suc 6" by (rule dec_digits_length)
  with True show ?thesis by (simp add: fmt_d_def)
next
  case False
  assume "fits8 v"
  with False have "nat v < 10 ^ Suc 7" by (simp add: fits8_def)
  then have "length (dec_digits (nat v)) \<le> Suc 7" by (rule dec_digits_length)
  with False show ?thesis by (simp add: fmt_d_def)
qed

lemma fmt_8d_length: "fits8 v \<Longrightarrow> length (fmt_8d v) = 8"
  using fmt_d_length [of v] by (simp add: fmt_8d_def pad_def)

lemma fields_Nil: "fields [] = Some []"
  by (simp add: fields.simps [of "[]"])

lemma fields_fmt_8d:
  assumes "fits8 v"
  shows "fields (fmt_8d v @ rest) = map_option (Cons v) (fields rest)"
proof -
  have l: "length (fmt_8d v) = 8" using assms by (rule fmt_8d_length)
  have "fmt_8d v \<noteq> []" by (rule fmt_8d_not_Nil)
  moreover have "take 8 (fmt_8d v @ rest) = fmt_8d v" "drop 8 (fmt_8d v @ rest) = rest"
    using l by simp_all
  ultimately show ?thesis
    using l by (simp add: fields.simps [of "fmt_8d v @ rest"] parse_field_fmt_8d)
qed

lemma fields_concat:
  "list_all fits8 vs \<Longrightarrow> fields (concat (map fmt_8d vs)) = Some vs"
  by (induction vs) (simp_all add: fields_Nil fields_fmt_8d)

lemma lines_from_chars: "l \<in> set (lines_from cur t) \<Longrightarrow> set l \<subseteq> set cur \<union> set t"
proof (induction t arbitrary: cur)
  case Nil
  then show ?case by (simp split: if_splits)
next
  case (Cons c t)
  show ?case
  proof (cases "c = CHR ''\<newline>''")
    case True
    with Cons.prems have "l = cur \<or> l \<in> set (lines_from [] t)" by simp
    then show ?thesis using Cons.IH [of "[]"] by auto
  next
    case False
    with Cons.prems have "l \<in> set (lines_from (cur @ [c]) t)" by simp
    then have "set l \<subseteq> set (cur @ [c]) \<union> set t" by (rule Cons.IH)
    then show ?thesis by auto
  qed
qed

lemma text_lines_chars: "l \<in> set (text_lines t) \<Longrightarrow> set l \<subseteq> set t"
  using lines_from_chars [of l "[]" t] by (simp add: text_lines_def)

lemma line_8d_no_star: "CHR ''*'' \<notin> set (line_8d vs)"
  by (simp add: line_8d_def fmt_8d_no_star)

lemma text_lines_line_8d:
  "text_lines (line_8d vs @ rest) = concat (map fmt_8d vs) # text_lines rest"
proof -
  have "CHR ''\<newline>'' \<notin> set (concat (map fmt_8d vs))" by (simp add: fmt_8d_no_newline)
  then show ?thesis using text_lines_line [of "concat (map fmt_8d vs)" rest]
    by (simp add: line_8d_def)
qed

lemma elem_text_cases:
  "elem_text el = [] \<or> (\<exists>vs. elem_text el = line_8d vs) \<or>
   (\<exists>us vs. elem_text el = line_8d us @ line_8d vs) \<or>
   (\<exists>us vs ws. elem_text el = line_8d us @ line_8d vs @ line_8d ws)"
proof (cases "elem_ok el")
  case False
  then show ?thesis by (simp add: elem_text_def elem_body_undefined)
next
  case True
  consider "elem_type el = 1" | "elem_type el = 3" | "elem_type el = 4" | "elem_type el = 6"
    | "elem_type el \<notin> {1, 3, 4, 6}"
    by auto
  then show ?thesis
  proof cases
    case 1
    then show ?thesis using True elem_text_type1 by blast
  next
    case 2
    then show ?thesis using True elem_text_type3 by blast
  next
    case 3
    then show ?thesis using True elem_text_type4 by blast
  next
    case 4
    then show ?thesis using True elem_text_type6 by blast
  next
    case 5
    then show ?thesis by (simp add: elem_text_other)
  qed
qed

lemma elem_text_no_star: "CHR ''*'' \<notin> set (elem_text el)"
  using elem_text_cases [of el] line_8d_no_star by auto

lemma elem_lines_no_star:
  assumes "l \<in> set (text_lines (concat (map elem_text els)))"
  shows "CHR ''*'' \<notin> set l"
proof -
  have "CHR ''*'' \<notin> set (concat (map elem_text els))" by (simp add: elem_text_no_star)
  then show ?thesis using text_lines_chars [OF assms] by auto
qed

lemma node_line_hd: "\<exists>c cs. node_line F node ni = c # cs \<and> c \<noteq> CHR ''*''"
proof -
  obtain c cs where f: "fmt_8d (node_nr ni) = c # cs"
    using fmt_8d_not_Nil [of "node_nr ni"] by (cases "fmt_8d (node_nr ni)") auto
  then have "c \<in> set (fmt_8d (node_nr ni))" by simp
  then have "c \<noteq> CHR ''*''" using fmt_8d_no_star [of "node_nr ni"] by auto
  then show ?thesis by (simp add: node_line_def f)
qed

lemma node_line_not_header:
  "node_line F node ni \<noteq> ''*NODE''" "node_line F node ni \<noteq> ''*ELEMENT_SOLID''"
  using node_line_hd [of F node ni] by auto

lemma text_lines_node_text:
  assumes "\<forall>v. CHR ''\<newline>'' \<notin> set (F v)"
  shows "text_lines (node_text F node ni @ rest) = node_line F node ni # text_lines rest"
proof -
  have "CHR ''\<newline>'' \<notin> set (node_line F node ni)"
    using assms by (simp add: node_line_def fmt_8d_no_newline)
  then show ?thesis using text_lines_line [of "node_line F node ni" rest]
    by (simp add: node_text_def node_line_def)
qed

lemma text_lines_node_texts:
  assumes "\<forall>v. CHR ''\<newline>'' \<notin> set (F v)"
  shows "text_lines (concat (map (node_text F node) ns) @ rest) =
         map (node_line F node) ns @ text_lines rest"
  using assms by (induction ns) (simp_all add: text_lines_node_text)

lemma text_lines_NODE: "text_lines (''*NODE\<newline>'' @ rest) = ''*NODE'' # text_lines rest"
  using text_lines_line [of "''*NODE''" rest] by simp

lemma text_lines_ELEMENT_SOLID:
  "text_lines (''*ELEMENT_SOLID\<newline>'' @ rest) = ''*ELEMENT_SOLID'' # text_lines rest"
  using text_lines_line [of "''*ELEMENT_SOLID''" rest] by simp

lemma text_lines_Nil: "text_lines [] = []"
  by (simp add: text_lines_def)

lemma text_lines_elem_section:
  "text_lines (elem_section anz elem) =
      (if 0 < anz_e anz
        then ''*ELEMENT_SOLID''
             # text_lines (concat (map elem_text (take (nat (anz_e anz)) elem)))
        else [])"
proof (cases "0 < anz_e anz")
  case True
  then have "elem_section anz elem =
      ''*ELEMENT_SOLID\<newline>'' @ concat (map elem_text (take (nat (anz_e anz)) elem))"
    by (simp add: elem_section_def)
  then show ?thesis using True by (simp only: text_lines_ELEMENT_SOLID if_True)
next
  case False
  then show ?thesis by (simp add: elem_section_def text_lines_Nil)
qed

lemma text_lines_sections:
  assumes "\<forall>v. CHR ''\<newline>'' \<notin> set (F v)"
  shows "text_lines (node_section F anz node @ elem_section anz elem) =
     (if 0 < anz_n anz
      then ''*NODE'' # map (node_line F node) (take (nat (anz_n anz)) node) else [])
     @ text_lines (elem_section anz elem)"
proof (cases "0 < anz_n anz")
  case True
  let ?N = "concat (map (node_text F node) (take (nat (anz_n anz)) node))"
  let ?E = "elem_section anz elem"
  have "node_section F anz node @ ?E = ''*NODE\<newline>'' @ (?N @ ?E)"
    using True by (simp add: node_section_def)
  then have "text_lines (node_section F anz node @ ?E) = ''*NODE'' # text_lines (?N @ ?E)"
    by (simp only: text_lines_NODE)
  also have "text_lines (?N @ ?E) =
      map (node_line F node) (take (nat (anz_n anz)) node) @ text_lines ?E"
    using assms by (rule text_lines_node_texts)
  finally show ?thesis using True by simp
next
  case False
  then show ?thesis by (simp add: node_section_def)
qed

lemma node_lines_no_header:
  "''*NODE'' \<notin> set (map (node_line F node) ns)"
  "''*ELEMENT_SOLID'' \<notin> set (map (node_line F node) ns)"
  using node_line_not_header [of F node] by (auto simp add: image_iff) metis+

lemma elem_lines_no_header:
  "''*NODE'' \<notin> set (text_lines (concat (map elem_text els)))"
  "''*ELEMENT_SOLID'' \<notin> set (text_lines (concat (map elem_text els)))"
  using elem_lines_no_star [of "''*NODE''" els] elem_lines_no_star [of "''*ELEMENT_SOLID''" els]
  by auto

section \<open>Decoding what was encoded\<close>

lemma decode_lines_NODE:
  "m = Outside \<or> m = InNodes \<or> m = InElems \<Longrightarrow>
   decode_lines pf m (''*NODE'' # ls) = decode_lines pf InNodes ls"
  by auto

lemma decode_lines_ELEMENT_SOLID:
  "m = Outside \<or> m = InNodes \<or> m = InElems \<Longrightarrow>
   decode_lines pf m (''*ELEMENT_SOLID'' # ls) = decode_lines pf InElems ls"
  by auto

lemma fields_line_not_header:
  "concat (map fmt_8d vs) \<noteq> ''*NODE''" "concat (map fmt_8d vs) \<noteq> ''*ELEMENT_SOLID''"
proof -
  have s: "CHR ''*'' \<notin> set (concat (map fmt_8d vs))" by (simp add: fmt_8d_no_star)
  have "CHR ''*'' \<in> set ''*NODE''" "CHR ''*'' \<in> set ''*ELEMENT_SOLID''" by simp_all
  with s show "concat (map fmt_8d vs) \<noteq> ''*NODE''"
    "concat (map fmt_8d vs) \<noteq> ''*ELEMENT_SOLID''"
    by metis+
qed

lemma decode_node_line:
  assumes "plain_node F pf node ni"
  shows "decode_lines pf InNodes (node_line F node ni # ls) =
         add_node (node_coords node ni) (decode_lines pf InNodes ls)"
proof -
  let ?nn = "node ! nat (node_nr ni)"
  let ?I = "fmt_8d (node_nr ni)"
  let ?X = "F (nx ?nn)" and ?Y = "F (ny ?nn)" and ?Z = "F (nz ?nn)"
  have "fits8 (node_nr ni)" using assms by (simp add: plain_node_def)
  then have i: "length ?I = 8" by (rule fmt_8d_length)
  have l: "length ?X = 16" "length ?Y = 16" "length ?Z = 16"
    using assms by (simp_all add: plain_node_def reads_back_def)
  have p: "pf ?X = Some (nx ?nn)" "pf ?Y = Some (ny ?nn)" "pf ?Z = Some (nz ?nn)"
    using assms by (simp_all add: plain_node_def reads_back_def)
  have n: "node_line F node ni = ?I @ ?X @ ?Y @ ?Z" by (simp add: node_line_def)
  have c: "length (node_line F node ni) = 56"
    "take 8 (node_line F node ni) = ?I"
    "take 16 (drop 8 (node_line F node ni)) = ?X"
    "take 16 (drop 24 (node_line F node ni)) = ?Y"
    "take 16 (drop 40 (node_line F node ni)) = ?Z"
    unfolding n using i l by simp_all
  show ?thesis
    using node_line_not_header [of F node ni]
    by (simp add: c p parse_field_fmt_8d node_coords_def)
qed

lemma decode_fields_line:
  assumes "list_all fits8 vs"
  shows "decode_lines pf InElems (concat (map fmt_8d vs) # ls) =
     (if length vs = 10
      then add_elem \<lparr>elem_nr = vs ! 0, elem_type = 1, elem_group = vs ! 1, nod = drop 2 vs\<rparr>
             (decode_lines pf InElems ls)
      else if length vs = 6
      then add_elem \<lparr>elem_nr = vs ! 0, elem_type = 3, elem_group = vs ! 1, nod = drop 2 vs\<rparr>
             (decode_lines pf InElems ls)
      else if length vs = 2 then decode_lines pf (Hex20Head (vs ! 0) (vs ! 1)) ls
      else Inl MalformedRecord)"
  using fields_line_not_header [of vs] fields_concat [OF assms] by simp

lemma decode_hex20_head:
  assumes "list_all fits8 vs" "length vs = 10"
  shows "decode_lines pf (Hex20Head nr g) (concat (map fmt_8d vs) # ls) =
         decode_lines pf (Hex20Mid nr g vs) ls"
  using fields_concat [OF assms(1)] assms(2) by simp

lemma decode_hex20_mid:
  assumes "list_all fits8 ws" "length ws = 10"
  shows "decode_lines pf (Hex20Mid nr g vs) (concat (map fmt_8d ws) # ls) =
         add_elem \<lparr>elem_nr = nr, elem_type = 4, elem_group = g,
                    nod = vs @ slots ws [0, 1, 6, 7, 8, 9, 2, 3, 4, 5]\<rparr>
           (decode_lines pf InElems ls)"
  using fields_concat [OF assms(1)] assms(2) by simp

lemma decode_hex8_line:
  assumes "list_all fits8 vs" "length vs = 10"
  shows "decode_lines pf InElems (concat (map fmt_8d vs) # ls) =
     add_elem \<lparr>elem_nr = vs ! 0, elem_type = 1, elem_group = vs ! 1, nod = drop 2 vs\<rparr>
       (decode_lines pf InElems ls)"
  using assms(2) by (simp add: decode_fields_line [OF assms(1)] del: decode_lines.simps)

lemma decode_tet4_line:
  assumes "list_all fits8 vs" "length vs = 6"
  shows "decode_lines pf InElems (concat (map fmt_8d vs) # ls) =
     add_elem \<lparr>elem_nr = vs ! 0, elem_type = 3, elem_group = vs ! 1, nod = drop 2 vs\<rparr>
       (decode_lines pf InElems ls)"
  using assms(2) by (simp add: decode_fields_line [OF assms(1)] del: decode_lines.simps)

lemma decode_head_line:
  assumes "fits8 nr" "fits8 g"
  shows "decode_lines pf InElems (concat (map fmt_8d [nr, g]) # ls) =
         decode_lines pf (Hex20Head nr g) ls"
proof -
  have "list_all fits8 [nr, g]" using assms by simp
  then show ?thesis by (simp add: decode_fields_line del: decode_lines.simps list.map concat.simps)
qed

lemma upt_8: "[0..<8] = [0, 1, 2, 3, 4, 5, 6, 7]"
  and upt_4: "[0..<4] = [0, 1, 2, 3]"
  and upt_20: "[0..<20] = [0, 1, 2, 3, 4, 5, 6, 7, 8, 9, 10, 11, 12, 13, 14, 15, 16, 17, 18, 19]"
  by code_simp+

lemma slots_all_8: "length xs = 8 \<Longrightarrow> slots xs [0, 1, 2, 3, 4, 5, 6, 7] = xs"
  using map_nth [of xs] by (simp add: slots_def upt_8 del: map_nth)

lemma slots_all_4: "length xs = 4 \<Longrightarrow> slots xs [0, 1, 2, 3] = xs"
  using map_nth [of xs] by (simp add: slots_def upt_4 del: map_nth)

lemma slots_hex20:
  assumes "length xs = 20"
  shows "slots xs [0, 1, 2, 3, 4, 5, 6, 7, 8, 9]
         @ slots (slots xs [10, 11, 16, 17, 18, 19, 12, 13, 14, 15]) [0, 1, 6, 7, 8, 9, 2, 3, 4, 5]
         = xs"
proof -
  have "map (\<lambda>k. xs ! k) [0, 1, 2, 3, 4, 5, 6, 7, 8, 9, 10, 11, 12, 13, 14, 15, 16, 17, 18, 19] = xs"
    using map_nth [of xs] assms by (simp only: upt_20)
  then show ?thesis by (simp add: slots_def)
qed

lemma elem_rebuild:
  "\<lparr>elem_nr = elem_nr el, elem_type = elem_type el, elem_group = elem_group el, nod = nod el\<rparr>
   = (el :: Elements)"
  by simp

lemma plain_elem_ok: "plain_elem el \<Longrightarrow> elem_ok el"
  by (auto simp add: plain_elem_def elem_ok_def)

lemma decode_elem_text:
  assumes "plain_elem el"
  shows "decode_lines pf InElems (text_lines (elem_text el @ rest)) =
         add_elem el (decode_lines pf InElems (text_lines rest))"
proof -
  have ok: "elem_ok el" using assms by (rule plain_elem_ok)
  have f: "fits8 (elem_nr el)" "fits8 (elem_group el)" "list_all fits8 (nod el)"
    using assms by (simp_all add: plain_elem_def)
  from assms consider
      (hex8) "elem_type el = 1" "length (nod el) = 8"
    | (tet4) "elem_type el = 3" "length (nod el) = 4"
    | (hex20) "elem_type el = 4" "length (nod el) = 20"
    by (auto simp add: plain_elem_def)
  then show ?thesis
  proof cases
    case hex8
    let ?vs = "elem_nr el # elem_group el # nod el"
    have t: "elem_text el = line_8d ?vs"
      using hex8 ok elem_text_type1 [of el] slots_all_8 [of "nod el"] by simp
    have "list_all fits8 ?vs" "length ?vs = 10" using f hex8 by simp_all
    then have "decode_lines pf InElems (concat (map fmt_8d ?vs) # text_lines rest) =
        add_elem \<lparr>elem_nr = ?vs ! 0, elem_type = 1, elem_group = ?vs ! 1, nod = drop 2 ?vs\<rparr>
             (decode_lines pf InElems (text_lines rest))"
      by (rule decode_hex8_line)
    moreover have "\<lparr>elem_nr = ?vs ! 0, elem_type = 1, elem_group = ?vs ! 1, nod = drop 2 ?vs\<rparr> = el"
      using elem_rebuild [of el] hex8(1) by simp
    ultimately show ?thesis
      unfolding t text_lines_line_8d by (simp only:)
  next
    case tet4
    let ?vs = "elem_nr el # elem_group el # nod el"
    have t: "elem_text el = line_8d ?vs"
      using tet4 ok elem_text_type3 [of el] slots_all_4 [of "nod el"] by simp
    have "list_all fits8 ?vs" "length ?vs = 6" using f tet4 by simp_all
    then have "decode_lines pf InElems (concat (map fmt_8d ?vs) # text_lines rest) =
        add_elem \<lparr>elem_nr = ?vs ! 0, elem_type = 3, elem_group = ?vs ! 1, nod = drop 2 ?vs\<rparr>
             (decode_lines pf InElems (text_lines rest))"
      by (rule decode_tet4_line)
    moreover have "\<lparr>elem_nr = ?vs ! 0, elem_type = 3, elem_group = ?vs ! 1, nod = drop 2 ?vs\<rparr> = el"
      using elem_rebuild [of el] tet4(1) by simp
    ultimately show ?thesis
      unfolding t text_lines_line_8d by (simp only:)
  next
    case hex20
    let ?us = "[elem_nr el, elem_group el]"
    let ?vs = "slots (nod el) [0, 1, 2, 3, 4, 5, 6, 7, 8, 9]"
    let ?ws = "slots (nod el) [10, 11, 16, 17, 18, 19, 12, 13, 14, 15]"
    have t: "elem_text el = line_8d ?us @ line_8d ?vs @ line_8d ?ws"
      using hex20 ok by (simp add: elem_text_type4)
    have n: "\<And>k. k < 20 \<Longrightarrow> fits8 (nod el ! k)"
      using f(3) hex20(2) by (simp add: list_all_length)
    have fu: "list_all fits8 ?us" "length ?us = 2" using f by simp_all
    have fv: "list_all fits8 ?vs" "length ?vs = 10" by (simp_all add: slots_def n)
    have fw: "list_all fits8 ?ws" "length ?ws = 10" by (simp_all add: slots_def n)
    have "decode_lines pf InElems (concat (map fmt_8d ?us) # concat (map fmt_8d ?vs)
            # concat (map fmt_8d ?ws) # text_lines rest) =
          decode_lines pf (Hex20Head (elem_nr el) (elem_group el)) (concat (map fmt_8d ?vs)
            # concat (map fmt_8d ?ws) # text_lines rest)"
      using f(1,2) by (rule decode_head_line)
    also have "\<dots> = decode_lines pf (Hex20Mid (elem_nr el) (elem_group el) ?vs)
            (concat (map fmt_8d ?ws) # text_lines rest)"
      using fv by (rule decode_hex20_head)
    also have "\<dots> = add_elem \<lparr>elem_nr = elem_nr el, elem_type = 4, elem_group = elem_group el,
                    nod = ?vs @ slots ?ws [0, 1, 6, 7, 8, 9, 2, 3, 4, 5]\<rparr>
           (decode_lines pf InElems (text_lines rest))"
      using fw by (rule decode_hex20_mid)
    also have "\<lparr>elem_nr = elem_nr el, elem_type = 4, elem_group = elem_group el,
                    nod = ?vs @ slots ?ws [0, 1, 6, 7, 8, 9, 2, 3, 4, 5]\<rparr> = el"
      using elem_rebuild [of el] hex20(1) by (simp only: slots_hex20 [OF hex20(2)])
    finally show ?thesis
      unfolding t by (simp only: append_assoc text_lines_line_8d)
  qed
qed

lemma whole_16_3f_no_newline: "CHR ''\<newline>'' \<notin> set (whole_16_3f v)"
proof
  assume "CHR ''\<newline>'' \<in> set (whole_16_3f v)"
  then have "CHR ''\<newline>'' \<in> set (fmt_d v)"
    by (auto simp add: whole_16_3f_def pad_def split: if_splits)
  then have "CHR ''\<newline>'' = CHR ''-'' \<or> digit CHR ''\<newline>''" by (rule fmt_d_char)
  then show False by (simp add: digit_def)
qed

lemma foldr_add_elem: "foldr add_elem els (Inr (ns, es)) = Inr (ns, els @ es)"
  by (induction els) (simp_all add: add_elem_def)

lemma foldr_add_node: "foldr add_node nds (Inr (ns, es)) = Inr (nds @ ns, es)"
  by (induction nds) (simp_all add: add_node_def)

lemma decode_elem_texts:
  "list_all plain_elem els \<Longrightarrow>
   decode_lines pf InElems (text_lines (concat (map elem_text els) @ rest)) =
   foldr add_elem els (decode_lines pf InElems (text_lines rest))"
  by (induction els) (simp_all add: decode_elem_text del: decode_lines.simps)

lemma decode_node_texts:
  assumes "\<forall>v. CHR ''\<newline>'' \<notin> set (F v)"
  shows "list_all (plain_node F pf node) ns \<Longrightarrow>
   decode_lines pf InNodes (text_lines (concat (map (node_text F node) ns) @ rest)) =
   foldr add_node (map (node_coords node) ns)
     (decode_lines pf InNodes (text_lines rest))"
  by (induction ns)
     (simp_all add: text_lines_node_text [OF assms] decode_node_line del: decode_lines.simps)

lemma decode_elem_section:
  assumes "m = Outside \<or> m = InNodes"
    and "list_all plain_elem (take (nat (anz_e anz)) elem)"
  shows "decode_lines pf m (text_lines (elem_section anz elem)) =
         Inr ([], take (nat (anz_e anz)) elem)"
proof (cases "0 < anz_e anz")
  case False
  then show ?thesis using assms(1) by (auto simp add: elem_section_def text_lines_Nil)
next
  case True
  let ?els = "take (nat (anz_e anz)) elem"
  have "decode_lines pf m (text_lines (elem_section anz elem)) =
        decode_lines pf m (''*ELEMENT_SOLID'' # text_lines (concat (map elem_text ?els) @ []))"
    using True by (simp add: text_lines_elem_section)
  also have "\<dots> = decode_lines pf InElems (text_lines (concat (map elem_text ?els) @ []))"
    using assms(1) by (intro decode_lines_ELEMENT_SOLID) auto
  also have "\<dots> = foldr add_elem ?els (decode_lines pf InElems (text_lines []))"
    using assms(2) by (rule decode_elem_texts)
  also have "\<dots> = Inr ([], ?els)"
    by (simp add: text_lines_Nil foldr_add_elem)
  finally show ?thesis .
qed

lemma decode_sections:
  assumes "\<forall>v. CHR ''\<newline>'' \<notin> set (F v)"
    and "list_all (plain_node F pf node) (take (nat (anz_n anz)) node)"
    and "list_all plain_elem (take (nat (anz_e anz)) elem)"
  shows "decode pf (node_section F anz node @ elem_section anz elem) =
     Inr (map (node_coords node) (take (nat (anz_n anz)) node),
          take (nat (anz_e anz)) elem)"
proof (cases "0 < anz_n anz")
  case False
  then show ?thesis
    using decode_elem_section [OF _ assms(3), where m = Outside and pf = pf]
    by (simp add: decode_def node_section_def)
next
  case True
  let ?ns = "take (nat (anz_n anz)) node"
  let ?N = "concat (map (node_text F node) ?ns)"
  let ?E = "elem_section anz elem"
  have "node_section F anz node @ ?E = ''*NODE\<newline>'' @ (?N @ ?E)"
    using True by (simp add: node_section_def)
  then have "decode pf (node_section F anz node @ ?E) =
      decode_lines pf Outside (''*NODE'' # text_lines (?N @ ?E))"
    by (simp only: decode_def text_lines_NODE)
  also have "\<dots> = decode_lines pf InNodes (text_lines (?N @ ?E))"
    by (intro decode_lines_NODE) auto
  also have "\<dots> = foldr add_node (map (node_coords node) ?ns)
     (decode_lines pf InNodes (text_lines ?E))"
    using assms(1,2) by (rule decode_node_texts)
  also have "decode_lines pf InNodes (text_lines ?E) = Inr ([], take (nat (anz_e anz)) elem)"
    using assms(3) by (intro decode_elem_section) auto
  finally show ?thesis by (simp add: foldr_add_node)
qed

lemma plain_elems_ok:
  "anz_e anz \<le> int (length elem) \<Longrightarrow> list_all plain_elem (take (nat (anz_e anz)) elem) \<Longrightarrow>
   elems_ok anz elem"
  by (auto simp add: elems_ok_def list_all_iff plain_elem_ok)

lemma replicate_numeral: "replicate (numeral k) x = x # replicate (numeral k - 1) x"
  by (simp add: numeral_eq_Suc)

lemmas run_simps = write2dyna_def any_path_def elem_loop.simps node_loop.simps elem_body_def
  node_body_def rd_def printf_def fprintf_def line_8d_def fmt_8d_def fmt_d_def pad_def
  dec_digits.simps digit_char_def whole_16_3f_def Let_def replicate_numeral

section \<open>The properties of the specification\<close>

text \<open>
  C1. Once the file is open and every read is inside its array, an element of type 4
  at position \<open>i\<close> of the element array puts three lines into the file, after the
  records of the elements before it and before those of the elements after it:
  a header line with exactly the element number and the group, a line with the
  slots 0 to 9 in order, and a line with the slots
  10, 11, 16, 17, 18, 19, 12, 13, 14, 15 in that order, every field in the format
  \<open>%8d\<close>. The example below is the element whose slots hold 0 to 19.
\<close>

theorem hex20_record:
  assumes "fopen_w (stem @ ''.dyn'')" "nodes_ok anz node" "elems_ok anz elem"
    and "i < nat (anz_e anz)" "elem_type (elem ! i) = 4"
  shows "\<exists>r. write2dyna fopen_w F stem anz node elem lcase = Inr r \<and>
           handle1 r = Some (node_section F anz node @ ''*ELEMENT_SOLID\<newline>''
             @ concat (map elem_text (take i elem))
             @ line_8d [elem_nr (elem ! i), elem_group (elem ! i)]
             @ line_8d (slots (nod (elem ! i)) [0, 1, 2, 3, 4, 5, 6, 7, 8, 9])
             @ line_8d (slots (nod (elem ! i)) [10, 11, 16, 17, 18, 19, 12, 13, 14, 15])
             @ concat (map elem_text (drop (Suc i) (take (nat (anz_e anz)) elem))))"
proof -
  have "elem_ok (elem ! i)" using assms(3,4) by (rule elems_ok_nth)
  then show ?thesis
    using assms by (simp add: write2dyna_ok elem_section_split elem_text_type4)
qed

theorem hex20_record_witness:
  "\<exists>r. write2dyna any_path whole_16_3f ''mesh'' \<lparr>anz_n = 0, anz_e = 1\<rparr> []
          [\<lparr>elem_nr = 7, elem_type = 4, elem_group = 2, nod = map int [0..<20]\<rparr>] () = Inr r \<and>
        handle1 r = Some (''*ELEMENT_SOLID\<newline>''
          @ ''       7       2\<newline>''
          @ ''       0       1       2       3       4       5       6       7       8       9\<newline>''
          @ ''      10      11      16      17      18      19      12      13      14      15\<newline>'')"
proof -
  let ?anz = "\<lparr>anz_n = 0, anz_e = 1\<rparr>"
  let ?el = "\<lparr>elem_nr = 7, elem_type = 4, elem_group = 2, nod = map int [0..<20]\<rparr>"
  have h1: "any_path (''mesh'' @ ''.dyn'')" by (simp add: any_path_def)
  have h2: "nodes_ok ?anz ([] :: int Nodes list)" by (simp add: nodes_ok_def)
  have h3: "elems_ok ?anz [?el]" by (simp add: elems_ok_def elem_ok_def)
  have h4: "0 < nat (anz_e ?anz)" by simp
  have h5: "elem_type ([?el] ! 0) = 4" by simp
  have v: "node_section whole_16_3f ?anz [] @ ''*ELEMENT_SOLID\<newline>''
             @ concat (map elem_text (take 0 [?el]))
             @ line_8d [elem_nr ([?el] ! 0), elem_group ([?el] ! 0)]
             @ line_8d (slots (nod ([?el] ! 0)) [0, 1, 2, 3, 4, 5, 6, 7, 8, 9])
             @ line_8d (slots (nod ([?el] ! 0)) [10, 11, 16, 17, 18, 19, 12, 13, 14, 15])
             @ concat (map elem_text (drop (Suc 0) (take (nat (anz_e ?anz)) [?el])))
        = ''*ELEMENT_SOLID\<newline>''
          @ ''       7       2\<newline>''
          @ ''       0       1       2       3       4       5       6       7       8       9\<newline>''
          @ ''      10      11      16      17      18      19      12      13      14      15\<newline>''"
    by code_simp
  show ?thesis
    using hex20_record [where fopen_w = any_path and stem = "''mesh''" and F = whole_16_3f
        and lcase = "()", OF h1 h2 h3 h4 h5]
    unfolding v .
qed

text \<open>
  C2. Under the same conditions an element of type 6 puts two lines into the file:
  the header line with exactly the element number and the group, and one line with
  the slots 0, 1, 2, 3, 4, 5, 6, 8, 9, 7 in that order. The example is the element
  whose slots hold 0 to 14.
\<close>

theorem wedge15_record:
  assumes "fopen_w (stem @ ''.dyn'')" "nodes_ok anz node" "elems_ok anz elem"
    and "i < nat (anz_e anz)" "elem_type (elem ! i) = 6"
  shows "\<exists>r. write2dyna fopen_w F stem anz node elem lcase = Inr r \<and>
           handle1 r = Some (node_section F anz node @ ''*ELEMENT_SOLID\<newline>''
             @ concat (map elem_text (take i elem))
             @ line_8d [elem_nr (elem ! i), elem_group (elem ! i)]
             @ line_8d (slots (nod (elem ! i)) [0, 1, 2, 3, 4, 5, 6, 8, 9, 7])
             @ concat (map elem_text (drop (Suc i) (take (nat (anz_e anz)) elem))))"
proof -
  have "elem_ok (elem ! i)" using assms(3,4) by (rule elems_ok_nth)
  then show ?thesis
    using assms by (simp add: write2dyna_ok elem_section_split elem_text_type6)
qed

theorem wedge15_record_witness:
  "\<exists>r. write2dyna any_path whole_16_3f ''mesh'' \<lparr>anz_n = 0, anz_e = 1\<rparr> []
          [\<lparr>elem_nr = 7, elem_type = 6, elem_group = 2, nod = map int [0..<15]\<rparr>] () = Inr r \<and>
        handle1 r = Some (''*ELEMENT_SOLID\<newline>''
          @ ''       7       2\<newline>''
          @ ''       0       1       2       3       4       5       6       8       9       7\<newline>'')"
proof -
  let ?anz = "\<lparr>anz_n = 0, anz_e = 1\<rparr>"
  let ?el = "\<lparr>elem_nr = 7, elem_type = 6, elem_group = 2, nod = map int [0..<15]\<rparr>"
  have h1: "any_path (''mesh'' @ ''.dyn'')" by (simp add: any_path_def)
  have h2: "nodes_ok ?anz ([] :: int Nodes list)" by (simp add: nodes_ok_def)
  have h3: "elems_ok ?anz [?el]" by (simp add: elems_ok_def elem_ok_def)
  have h4: "0 < nat (anz_e ?anz)" by simp
  have h5: "elem_type ([?el] ! 0) = 6" by simp
  have v: "node_section whole_16_3f ?anz [] @ ''*ELEMENT_SOLID\<newline>''
             @ concat (map elem_text (take 0 [?el]))
             @ line_8d [elem_nr ([?el] ! 0), elem_group ([?el] ! 0)]
             @ line_8d (slots (nod ([?el] ! 0)) [0, 1, 2, 3, 4, 5, 6, 8, 9, 7])
             @ concat (map elem_text (drop (Suc 0) (take (nat (anz_e ?anz)) [?el])))
        = ''*ELEMENT_SOLID\<newline>''
          @ ''       7       2\<newline>''
          @ ''       0       1       2       3       4       5       6       8       9       7\<newline>''"
    by code_simp
  show ?thesis
    using wedge15_record [where fopen_w = any_path and stem = "''mesh''"
        and F = whole_16_3f and lcase = "()", OF h1 h2 h3 h4 h5]
    unfolding v .
qed

text \<open>
  C3. With at least one node, the file starts with the line \<open>*NODE\<close> and one record for
  each of the first \<open>anz->n\<close> entries of the node array, in array order. A record is the
  entry's number in the format \<open>%8d\<close> and then the three coordinates, in the format
  \<open>%16.3f\<close>, that the node array holds at the index equal to that number, not at the
  entry's own position. The element section follows. In the example the numbers 2
  and 1 sit at the positions 0 and 1, and the coordinates printed come from the
  positions 2 and 1.
\<close>

theorem node_records:
  assumes "fopen_w (stem @ ''.dyn'')" "nodes_ok anz node" "elems_ok anz elem"
    and "0 < anz_n anz"
  shows "\<exists>r. write2dyna fopen_w F stem anz node elem lcase = Inr r \<and>
           handle1 r = Some (''*NODE\<newline>''
             @ concat (map (\<lambda>ni. fmt_8d (node_nr ni)
                                  @ F (nx (node ! nat (node_nr ni)))
                                  @ F (ny (node ! nat (node_nr ni)))
                                  @ F (nz (node ! nat (node_nr ni))) @ ''\<newline>'')
                          (take (nat (anz_n anz)) node))
             @ elem_section anz elem)"
proof -
  have "node_text F node = (\<lambda>ni. fmt_8d (node_nr ni)
                                  @ F (nx (node ! nat (node_nr ni)))
                                  @ F (ny (node ! nat (node_nr ni)))
                                  @ F (nz (node ! nat (node_nr ni))) @ ''\<newline>'')"
    by (rule ext) (simp add: node_text_def)
  then show ?thesis
    using assms by (simp add: write2dyna_ok node_section_def)
qed

theorem node_records_witness:
  "\<exists>r. write2dyna any_path whole_16_3f ''mesh'' \<lparr>anz_n = 2, anz_e = 0\<rparr>
          [\<lparr>node_nr = 2, nx = 0, ny = 0, nz = 0\<rparr>,
           \<lparr>node_nr = 1, nx = 1, ny = 2, nz = 3\<rparr>,
           \<lparr>node_nr = 0, nx = - 4, ny = 5, nz = 6\<rparr>] [] () = Inr r \<and>
        handle1 r = Some (''*NODE\<newline>''
          @ ''       2          -4.000           5.000           6.000\<newline>''
          @ ''       1           1.000           2.000           3.000\<newline>'')"
proof -
  let ?anz = "\<lparr>anz_n = 2, anz_e = 0\<rparr>"
  let ?node = "[\<lparr>node_nr = 2, nx = 0, ny = 0, nz = 0\<rparr>,
           \<lparr>node_nr = 1, nx = 1, ny = 2, nz = 3\<rparr>,
           \<lparr>node_nr = 0, nx = - 4, ny = 5, nz = 6 :: int\<rparr>]"
  have h1: "any_path (''mesh'' @ ''.dyn'')" by (simp add: any_path_def)
  have h2: "nodes_ok ?anz ?node" by (simp add: nodes_ok_def node_ok_def)
  have h3: "elems_ok ?anz []" by (simp add: elems_ok_def)
  have h4: "0 < anz_n ?anz" by simp
  have v: "''*NODE\<newline>''
             @ concat (map (\<lambda>ni. fmt_8d (node_nr ni)
                                  @ whole_16_3f (nx (?node ! nat (node_nr ni)))
                                  @ whole_16_3f (ny (?node ! nat (node_nr ni)))
                                  @ whole_16_3f (nz (?node ! nat (node_nr ni))) @ ''\<newline>'')
                          (take (nat (anz_n ?anz)) ?node))
             @ elem_section ?anz []
       = ''*NODE\<newline>''
          @ ''       2          -4.000           5.000           6.000\<newline>''
          @ ''       1           1.000           2.000           3.000\<newline>''"
    by code_simp
  show ?thesis
    using node_records [where fopen_w = any_path and stem = "''mesh''"
        and F = whole_16_3f and lcase = "()", OF h1 h2 h3 h4]
    unfolding v .
qed

text \<open>
  C4. Take a call whose file opens, whose reads are inside their arrays, and a text
  for \<open>%16.3f\<close> that holds no newline. Among the lines of the file, \<open>*NODE\<close> occurs
  once when \<open>anz->n\<close> is positive and never otherwise, and \<open>*ELEMENT_SOLID\<close> once when
  \<open>anz->e\<close> is positive and never otherwise. When both occur, \<open>*NODE\<close> is the first
  line and \<open>*ELEMENT_SOLID\<close> a later one. Without nodes the file is the element
  section alone, and without elements the node section alone.
\<close>

theorem section_headers:
  assumes "fopen_w (stem @ ''.dyn'')" "nodes_ok anz node" "elems_ok anz elem"
    and "\<forall>v. CHR ''\<newline>'' \<notin> set (F v)"
  shows "\<exists>r txt. write2dyna fopen_w F stem anz node elem lcase = Inr r \<and> handle1 r = Some txt \<and>
     count_list (text_lines txt) ''*NODE'' = (if 0 < anz_n anz then 1 else 0) \<and>
     count_list (text_lines txt) ''*ELEMENT_SOLID'' = (if 0 < anz_e anz then 1 else 0) \<and>
     (0 < anz_n anz \<and> 0 < anz_e anz \<longrightarrow>
        (\<exists>a b. text_lines txt = ''*NODE'' # a @ ''*ELEMENT_SOLID'' # b)) \<and>
     (anz_n anz \<le> 0 \<longrightarrow> txt = elem_section anz elem) \<and>
     (anz_e anz \<le> 0 \<longrightarrow> txt = node_section F anz node)"
proof -
  let ?txt = "node_section F anz node @ elem_section anz elem"
  let ?nls = "map (node_line F node) (take (nat (anz_n anz)) node)"
  let ?els = "text_lines (concat (map elem_text (take (nat (anz_e anz)) elem)))"
  have l: "text_lines ?txt = (if 0 < anz_n anz then ''*NODE'' # ?nls else [])
      @ (if 0 < anz_e anz then ''*ELEMENT_SOLID'' # ?els else [])"
    unfolding text_lines_sections [OF assms(4)] text_lines_elem_section ..
  have c1: "count_list (text_lines ?txt) ''*NODE'' = (if 0 < anz_n anz then 1 else 0)"
    unfolding l using node_lines_no_header(1) [of F node] elem_lines_no_header(1) by simp
  have c2: "count_list (text_lines ?txt) ''*ELEMENT_SOLID'' = (if 0 < anz_e anz then 1 else 0)"
    unfolding l using node_lines_no_header(2) [of F node] elem_lines_no_header(2) by simp
  have o: "0 < anz_n anz \<and> 0 < anz_e anz \<longrightarrow>
        (\<exists>a b. text_lines ?txt = ''*NODE'' # a @ ''*ELEMENT_SOLID'' # b)"
    unfolding l by auto
  have z: "(anz_n anz \<le> 0 \<longrightarrow> ?txt = elem_section anz elem) \<and>
     (anz_e anz \<le> 0 \<longrightarrow> ?txt = node_section F anz node)"
    by (simp add: node_section_def elem_section_def)
  have "write2dyna fopen_w F stem anz node elem lcase =
    Inr \<lparr>status = 1, datout = stem @ ''.dyn'', handle1 = Some ?txt,
         stdout = banner (stem @ ''.dyn'') @ diagnostics anz elem\<rparr>"
    using assms(1-3) by (rule write2dyna_ok)
  with c1 c2 o z show ?thesis by auto
qed

theorem section_headers_witness:
  "(\<exists>r txt. write2dyna any_path whole_16_3f ''mesh'' \<lparr>anz_n = 2, anz_e = 1\<rparr>
       [\<lparr>node_nr = 2, nx = 0, ny = 0, nz = 0\<rparr>, \<lparr>node_nr = 1, nx = 1, ny = 2, nz = 3\<rparr>,
        \<lparr>node_nr = 0, nx = - 4, ny = 5, nz = 6\<rparr>]
       [\<lparr>elem_nr = 1, elem_type = 3, elem_group = 1, nod = [1, 2, 3, 4]\<rparr>] () = Inr r \<and>
     handle1 r = Some txt \<and>
     count_list (text_lines txt) ''*NODE'' = 1 \<and>
     count_list (text_lines txt) ''*ELEMENT_SOLID'' = 1 \<and>
     (\<exists>a b. text_lines txt = ''*NODE'' # a @ ''*ELEMENT_SOLID'' # b)) \<and>
   (\<exists>r txt. write2dyna any_path whole_16_3f ''mesh'' \<lparr>anz_n = 0, anz_e = 0\<rparr>
       [\<lparr>node_nr = 2, nx = 0, ny = 0, nz = 0\<rparr>, \<lparr>node_nr = 1, nx = 1, ny = 2, nz = 3\<rparr>,
        \<lparr>node_nr = 0, nx = - 4, ny = 5, nz = 6\<rparr>]
       [\<lparr>elem_nr = 1, elem_type = 3, elem_group = 1, nod = [1, 2, 3, 4]\<rparr>] () = Inr r \<and>
     handle1 r = Some txt \<and>
     count_list (text_lines txt) ''*NODE'' = 0 \<and>
     count_list (text_lines txt) ''*ELEMENT_SOLID'' = 0 \<and> txt = [])"
proof -
  let ?anz = "\<lparr>anz_n = 2, anz_e = 1\<rparr>"
  let ?zero = "\<lparr>anz_n = 0, anz_e = 0\<rparr>"
  let ?node = "[\<lparr>node_nr = 2, nx = 0, ny = 0, nz = 0\<rparr>, \<lparr>node_nr = 1, nx = 1, ny = 2, nz = 3\<rparr>,
        \<lparr>node_nr = 0, nx = - 4, ny = 5, nz = 6 :: int\<rparr>]"
  let ?elem = "[\<lparr>elem_nr = 1, elem_type = 3, elem_group = 1, nod = [1, 2, 3, 4]\<rparr>]"
  have h1: "any_path (''mesh'' @ ''.dyn'')" by (simp add: any_path_def)
  have h2: "nodes_ok ?anz ?node" by (simp add: nodes_ok_def node_ok_def)
  have h3: "elems_ok ?anz ?elem" by (simp add: elems_ok_def elem_ok_def)
  have z2: "nodes_ok ?zero ?node" by (simp add: nodes_ok_def node_ok_def)
  have z3: "elems_ok ?zero ?elem" by (simp add: elems_ok_def elem_ok_def)
  have h4: "\<forall>v. CHR ''\<newline>'' \<notin> set (whole_16_3f v)" by (simp add: whole_16_3f_no_newline)
  have e: "elem_section ?zero ?elem = []" by (simp add: elem_section_def)
  have a: "\<exists>r txt. write2dyna any_path whole_16_3f ''mesh'' ?anz ?node ?elem () = Inr r \<and>
     handle1 r = Some txt \<and>
     count_list (text_lines txt) ''*NODE'' = 1 \<and>
     count_list (text_lines txt) ''*ELEMENT_SOLID'' = 1 \<and>
     (\<exists>a b. text_lines txt = ''*NODE'' # a @ ''*ELEMENT_SOLID'' # b)"
    using section_headers [where fopen_w = any_path and stem = "''mesh''" and lcase = "()",
        OF h1 h2 h3 h4]
    by simp
  have b: "\<exists>r txt. write2dyna any_path whole_16_3f ''mesh'' ?zero ?node ?elem () = Inr r \<and>
     handle1 r = Some txt \<and>
     count_list (text_lines txt) ''*NODE'' = 0 \<and>
     count_list (text_lines txt) ''*ELEMENT_SOLID'' = 0 \<and> txt = []"
    using section_headers [where fopen_w = any_path and stem = "''mesh''" and lcase = "()",
        OF h1 z2 z3 h4]
    unfolding e by auto
  from a b show ?thesis ..
qed

text \<open>
  C5, as the code has it. The function keeps no count of the elements it skips: it
  returns 1 whatever their number, and \<open>skipped_counter_counterexample\<close> evaluates
  the same mesh without and with an element of type 9; status and file are the same,
  only the printed text grows. What holds: once the file is open and every read is
  inside its array, the file is the one that the elements of the types 1, 3, 4 and 6
  alone would give, in their order, after the line \<open>*ELEMENT_SOLID\<close> that any
  positive element count brings; and the standard output holds, after the two opening
  messages, exactly one line \<open>elem not a known type (t)\<close> for each element of
  another type \<open>t\<close>, in their order.
\<close>

theorem unknown_type_skipped:
  assumes "fopen_w (stem @ ''.dyn'')" "nodes_ok anz node" "elems_ok anz elem"
  shows "\<exists>r. write2dyna fopen_w F stem anz node elem lcase = Inr r \<and> status r = 1 \<and>
     handle1 r = Some (node_section F anz node
       @ (if 0 < anz_e anz then ''*ELEMENT_SOLID\<newline>'' else [])
       @ concat (map elem_text
           (filter (\<lambda>el. elem_type el \<in> {1, 3, 4, 6}) (take (nat (anz_e anz)) elem)))) \<and>
     stdout r = banner (stem @ ''.dyn'')
       @ concat (map (\<lambda>el. '' elem not a known type ('' @ fmt_d (elem_type el) @ '')\<newline>'')
           (filter (\<lambda>el. elem_type el \<notin> {1, 3, 4, 6}) (take (nat (anz_e anz)) elem)))"
proof -
  let ?els = "take (nat (anz_e anz)) elem"
  let ?known = "\<lambda>el. elem_type el \<in> {1, 3, 4, 6}"
  have ok: "elem_ok el" if "el \<in> set ?els" for el
    using assms(3) that by (simp add: elems_ok_def list_all_iff)
  have f: "concat (map elem_text (filter ?known ?els)) = concat (map elem_text ?els)"
    by (rule concat_map_filter_empty) (rule elem_text_other)
  have "concat (map elem_diag (filter (\<lambda>el. \<not> ?known el) ?els)) = concat (map elem_diag ?els)"
    by (rule concat_map_filter_empty) (simp add: elem_diag_known ok)
  moreover have "concat (map elem_diag (filter (\<lambda>el. \<not> ?known el) ?els)) =
      concat (map (\<lambda>el. '' elem not a known type ('' @ fmt_d (elem_type el) @ '')\<newline>'')
           (filter (\<lambda>el. \<not> ?known el) ?els))"
    by (rule concat_map_cong_set) (simp add: elem_diag_other)
  ultimately have d: "diagnostics anz elem =
      concat (map (\<lambda>el. '' elem not a known type ('' @ fmt_d (elem_type el) @ '')\<newline>'')
           (filter (\<lambda>el. \<not> ?known el) ?els))"
    by (simp add: diagnostics_def)
  have e: "elem_section anz elem = (if 0 < anz_e anz then ''*ELEMENT_SOLID\<newline>'' else [])
       @ concat (map elem_text (filter ?known ?els))"
    unfolding f by (simp add: elem_section_def)
  show ?thesis
    using assms d e by (simp add: write2dyna_ok)
qed

theorem unknown_type_skipped_witness:
  "\<exists>r. write2dyna any_path whole_16_3f ''mesh'' \<lparr>anz_n = 0, anz_e = 3\<rparr> []
          [\<lparr>elem_nr = 1, elem_type = 3, elem_group = 1, nod = [1, 2, 3, 4]\<rparr>,
           \<lparr>elem_nr = 2, elem_type = 9, elem_group = 1, nod = [1, 2, 3, 4]\<rparr>,
           \<lparr>elem_nr = 3, elem_type = 3, elem_group = 1, nod = [2, 3, 4, 5]\<rparr>] () = Inr r \<and>
        status r = 1 \<and>
        handle1 r = Some (''*ELEMENT_SOLID\<newline>''
          @ ''       1       1       1       2       3       4\<newline>''
          @ ''       3       1       2       3       4       5\<newline>'') \<and>
        stdout r = ''\<newline>mesh.dyn opened\<newline>\<newline> write ls-dyna data  \<newline>''
          @ '' elem not a known type (9)\<newline>''"
proof -
  let ?anz = "\<lparr>anz_n = 0, anz_e = 3\<rparr>"
  let ?elem = "[\<lparr>elem_nr = 1, elem_type = 3, elem_group = 1, nod = [1, 2, 3, 4]\<rparr>,
           \<lparr>elem_nr = 2, elem_type = 9, elem_group = 1, nod = [1, 2, 3, 4]\<rparr>,
           \<lparr>elem_nr = 3, elem_type = 3, elem_group = 1, nod = [2, 3, 4, 5]\<rparr>]"
  have h1: "any_path (''mesh'' @ ''.dyn'')" by (simp add: any_path_def)
  have h2: "nodes_ok ?anz ([] :: int Nodes list)" by (simp add: nodes_ok_def)
  have h3: "elems_ok ?anz ?elem" by (simp add: elems_ok_def elem_ok_def)
  have v: "node_section whole_16_3f ?anz []
       @ (if 0 < anz_e ?anz then ''*ELEMENT_SOLID\<newline>'' else [])
       @ concat (map elem_text
           (filter (\<lambda>el. elem_type el \<in> {1, 3, 4, 6}) (take (nat (anz_e ?anz)) ?elem)))
     = ''*ELEMENT_SOLID\<newline>''
          @ ''       1       1       1       2       3       4\<newline>''
          @ ''       3       1       2       3       4       5\<newline>''"
    by code_simp
  have w: "banner (''mesh'' @ ''.dyn'')
       @ concat (map (\<lambda>el. '' elem not a known type ('' @ fmt_d (elem_type el) @ '')\<newline>'')
           (filter (\<lambda>el. elem_type el \<notin> {1, 3, 4, 6}) (take (nat (anz_e ?anz)) ?elem)))
     = ''\<newline>mesh.dyn opened\<newline>\<newline> write ls-dyna data  \<newline>''
          @ '' elem not a known type (9)\<newline>''"
    by code_simp
  show ?thesis
    using unknown_type_skipped [where fopen_w = any_path and stem = "''mesh''"
        and F = whole_16_3f and lcase = "()", OF h1 h2 h3]
    unfolding v w .
qed

theorem skipped_counter_counterexample:
  "write2dyna any_path whole_16_3f ''mesh'' \<lparr>anz_n = 0, anz_e = 1\<rparr> []
     [\<lparr>elem_nr = 1, elem_type = 3, elem_group = 1, nod = [1, 2, 3, 4]\<rparr>,
      \<lparr>elem_nr = 2, elem_type = 9, elem_group = 1, nod = [1, 2, 3, 4]\<rparr>] () =
   Inr \<lparr>status = 1, datout = ''mesh.dyn'',
        handle1 = Some (''*ELEMENT_SOLID\<newline>''
                        @ ''       1       1       1       2       3       4\<newline>''),
        stdout = ''\<newline>mesh.dyn opened\<newline>\<newline> write ls-dyna data  \<newline>''\<rparr> \<and>
   write2dyna any_path whole_16_3f ''mesh'' \<lparr>anz_n = 0, anz_e = 2\<rparr> []
     [\<lparr>elem_nr = 1, elem_type = 3, elem_group = 1, nod = [1, 2, 3, 4]\<rparr>,
      \<lparr>elem_nr = 2, elem_type = 9, elem_group = 1, nod = [1, 2, 3, 4]\<rparr>] () =
   Inr \<lparr>status = 1, datout = ''mesh.dyn'',
        handle1 = Some (''*ELEMENT_SOLID\<newline>''
                        @ ''       1       1       1       2       3       4\<newline>''),
        stdout = ''\<newline>mesh.dyn opened\<newline>\<newline> write ls-dyna data  \<newline>''
                 @ '' elem not a known type (9)\<newline>''\<rparr>"
  by code_simp

text \<open>
  C6, as the code has it. The element loop never consults the node array, so no
  error is raised for an element that names a node number missing from it:
  \<open>node_not_found_counterexample\<close> evaluates a mesh with the nodes 1 and 2 and a
  tetrahedron on the nodes 1, 2, 77 and 78; the record is written, the status is 1
  and nothing is printed about it. What holds: once the file is open and every read
  is inside its array, the element section and the printed text are the same under
  any two node arrays and node counts, and the status is 1 under both; an element
  record holds node numbers and no coordinate.
\<close>

theorem dangling_node_written:
  assumes "fopen_w (stem @ ''.dyn'')" "nodes_ok anz node" "elems_ok anz elem"
    and "nodes_ok anz' node'" "anz_e anz' = anz_e anz"
  shows "\<exists>r r'. write2dyna fopen_w F stem anz node elem lcase = Inr r \<and>
           write2dyna fopen_w F stem anz' node' elem lcase = Inr r' \<and>
           status r = 1 \<and> status r' = 1 \<and> stdout r' = stdout r \<and>
           handle1 r = Some (node_section F anz node @ elem_section anz elem) \<and>
           handle1 r' = Some (node_section F anz' node' @ elem_section anz elem)"
proof -
  from assms(3,5) have e: "elems_ok anz' elem" by (simp add: elems_ok_def)
  from assms(5) have "elem_section anz' elem = elem_section anz elem"
    and "diagnostics anz' elem = diagnostics anz elem"
    by (simp_all add: elem_section_def diagnostics_def)
  then show ?thesis
    using assms(1,2,3,4) e by (simp add: write2dyna_ok)
qed

theorem dangling_node_written_witness:
  "\<exists>r r'. write2dyna any_path whole_16_3f ''mesh'' \<lparr>anz_n = 2, anz_e = 1\<rparr>
             [\<lparr>node_nr = 1, nx = 0, ny = 0, nz = 0\<rparr>, \<lparr>node_nr = 2, nx = 1, ny = 2, nz = 3\<rparr>,
              \<lparr>node_nr = 0, nx = 4, ny = 5, nz = 6\<rparr>]
             [\<lparr>elem_nr = 1, elem_type = 3, elem_group = 1, nod = [1, 2, 77, 78]\<rparr>] () = Inr r \<and>
           write2dyna any_path whole_16_3f ''mesh'' \<lparr>anz_n = 0, anz_e = 1\<rparr> []
             [\<lparr>elem_nr = 1, elem_type = 3, elem_group = 1, nod = [1, 2, 77, 78]\<rparr>] () = Inr r' \<and>
           status r = 1 \<and> status r' = 1 \<and> stdout r' = stdout r \<and>
           handle1 r = Some (''*NODE\<newline>''
             @ ''       1           1.000           2.000           3.000\<newline>''
             @ ''       2           4.000           5.000           6.000\<newline>''
             @ ''*ELEMENT_SOLID\<newline>''
             @ ''       1       1       1       2      77      78\<newline>'') \<and>
           handle1 r' = Some (''*ELEMENT_SOLID\<newline>''
             @ ''       1       1       1       2      77      78\<newline>'')"
proof -
  let ?anz = "\<lparr>anz_n = 2, anz_e = 1\<rparr>"
  let ?anz' = "\<lparr>anz_n = 0, anz_e = 1\<rparr>"
  let ?node = "[\<lparr>node_nr = 1, nx = 0, ny = 0, nz = 0\<rparr>, \<lparr>node_nr = 2, nx = 1, ny = 2, nz = 3\<rparr>,
              \<lparr>node_nr = 0, nx = 4, ny = 5, nz = 6 :: int\<rparr>]"
  let ?elem = "[\<lparr>elem_nr = 1, elem_type = 3, elem_group = 1, nod = [1, 2, 77, 78]\<rparr>]"
  have h1: "any_path (''mesh'' @ ''.dyn'')" by (simp add: any_path_def)
  have h2: "nodes_ok ?anz ?node" by (simp add: nodes_ok_def node_ok_def)
  have h3: "elems_ok ?anz ?elem" by (simp add: elems_ok_def elem_ok_def)
  have h4: "nodes_ok ?anz' ([] :: int Nodes list)" by (simp add: nodes_ok_def)
  have h5: "anz_e ?anz' = anz_e ?anz" by simp
  have v: "node_section whole_16_3f ?anz ?node @ elem_section ?anz ?elem =
           ''*NODE\<newline>''
             @ ''       1           1.000           2.000           3.000\<newline>''
             @ ''       2           4.000           5.000           6.000\<newline>''
             @ ''*ELEMENT_SOLID\<newline>''
             @ ''       1       1       1       2      77      78\<newline>''"
    by code_simp
  have v': "node_section whole_16_3f ?anz' [] @ elem_section ?anz ?elem =
           ''*ELEMENT_SOLID\<newline>''
             @ ''       1       1       1       2      77      78\<newline>''"
    by code_simp
  show ?thesis
    using dangling_node_written [where fopen_w = any_path and stem = "''mesh''"
        and F = whole_16_3f and lcase = "()", OF h1 h2 h3 h4 h5]
    unfolding v v' .
qed

theorem node_not_found_counterexample:
  "write2dyna any_path whole_16_3f ''mesh'' \<lparr>anz_n = 2, anz_e = 1\<rparr>
     [\<lparr>node_nr = 1, nx = 0, ny = 0, nz = 0\<rparr>, \<lparr>node_nr = 2, nx = 1, ny = 2, nz = 3\<rparr>,
      \<lparr>node_nr = 0, nx = 4, ny = 5, nz = 6\<rparr>]
     [\<lparr>elem_nr = 1, elem_type = 3, elem_group = 1, nod = [1, 2, 77, 78]\<rparr>] () =
   Inr \<lparr>status = 1, datout = ''mesh.dyn'',
        handle1 = Some (''*NODE\<newline>''
             @ ''       1           1.000           2.000           3.000\<newline>''
             @ ''       2           4.000           5.000           6.000\<newline>''
             @ ''*ELEMENT_SOLID\<newline>''
             @ ''       1       1       1       2      77      78\<newline>''),
        stdout = ''\<newline>mesh.dyn opened\<newline>\<newline> write ls-dyna data  \<newline>''\<rparr>"
  by code_simp

text \<open>
  C7. The path opened is the caller's string with \<open>.dyn\<close> appended. When it cannot be
  opened, the function prints the message naming the path, writes to no file and
  returns -1. When it can be opened and every read is inside its array, the function
  returns 1, having written the node section and the element section to the file.
\<close>

theorem open_status:
  "(\<not> fopen_w (stem @ ''.dyn'') \<longrightarrow>
      write2dyna fopen_w F stem anz node elem lcase =
        Inr \<lparr>status = - 1, datout = stem @ ''.dyn'', handle1 = None,
             stdout = ''\<newline>The output file \"'' @ stem @ ''.dyn''
                      @ ''\" could not be opened.\<newline>\<newline>''\<rparr>) \<and>
   (fopen_w (stem @ ''.dyn'') \<and> nodes_ok anz node \<and> elems_ok anz elem \<longrightarrow>
      (\<exists>r. write2dyna fopen_w F stem anz node elem lcase = Inr r \<and> status r = 1 \<and>
           datout r = stem @ ''.dyn'' \<and>
           handle1 r = Some (node_section F anz node @ elem_section anz elem)))"
  by (simp add: write2dyna_ok) (simp add: write2dyna_def)

theorem open_status_witness:
  "write2dyna (\<lambda>p. False) whole_16_3f ''mesh'' \<lparr>anz_n = 0, anz_e = 1\<rparr> []
     [\<lparr>elem_nr = 1, elem_type = 3, elem_group = 1, nod = [1, 2, 3, 4]\<rparr>] () =
     Inr \<lparr>status = - 1, datout = ''mesh.dyn'', handle1 = None,
          stdout = ''\<newline>The output file \"mesh.dyn\" could not be opened.\<newline>\<newline>''\<rparr> \<and>
   (\<exists>r. write2dyna (\<lambda>p. p = ''mesh.dyn'') whole_16_3f ''mesh'' \<lparr>anz_n = 0, anz_e = 1\<rparr> []
          [\<lparr>elem_nr = 1, elem_type = 3, elem_group = 1, nod = [1, 2, 3, 4]\<rparr>] () = Inr r \<and>
        status r = 1 \<and> datout r = ''mesh.dyn'' \<and>
        handle1 r = Some (''*ELEMENT_SOLID\<newline>''
                          @ ''       1       1       1       2       3       4\<newline>''))"
proof -
  let ?anz = "\<lparr>anz_n = 0, anz_e = 1\<rparr>"
  let ?elem = "[\<lparr>elem_nr = 1, elem_type = 3, elem_group = 1, nod = [1, 2, 3, 4]\<rparr>]"
  have h2: "nodes_ok ?anz ([] :: int Nodes list)" by (simp add: nodes_ok_def)
  have h3: "elems_ok ?anz ?elem" by (simp add: elems_ok_def elem_ok_def)
  have v: "node_section whole_16_3f ?anz [] @ elem_section ?anz ?elem =
           ''*ELEMENT_SOLID\<newline>'' @ ''       1       1       1       2       3       4\<newline>''"
    by code_simp
  have a: "write2dyna (\<lambda>p. False) whole_16_3f ''mesh'' ?anz [] ?elem () =
     Inr \<lparr>status = - 1, datout = ''mesh.dyn'', handle1 = None,
          stdout = ''\<newline>The output file \"mesh.dyn\" could not be opened.\<newline>\<newline>''\<rparr>"
    using open_status [where fopen_w = "\<lambda>p. False" and stem = "''mesh''" and F = whole_16_3f
        and anz = ?anz and node = "[]" and elem = ?elem and lcase = "()"]
    by simp
  have b: "\<exists>r. write2dyna (\<lambda>p. p = ''mesh.dyn'') whole_16_3f ''mesh'' ?anz [] ?elem () = Inr r \<and>
        status r = 1 \<and> datout r = ''mesh.dyn'' \<and>
        handle1 r = Some (''*ELEMENT_SOLID\<newline>''
                          @ ''       1       1       1       2       3       4\<newline>'')"
    using open_status [where fopen_w = "\<lambda>p. p = ''mesh.dyn''" and stem = "''mesh''"
        and F = whole_16_3f and anz = ?anz and node = "[]" and elem = ?elem and lcase = "()"]
      h2 h3
    unfolding v by simp
  from a b show ?thesis ..
qed

text \<open>
  C8. Under the conditions of C1 an element of type 1 puts one line of ten \<open>%8d\<close>
  fields into the file: its number, its group and the slots 0 to 7 in order; an
  element of type 3 puts one line of six \<open>%8d\<close> fields: its number, its group and the
  slots 0 to 3 in order. The example holds one element of each type.
\<close>

theorem hex8_tet4_record:
  assumes "fopen_w (stem @ ''.dyn'')" "nodes_ok anz node" "elems_ok anz elem"
    and "i < nat (anz_e anz)"
  shows "\<exists>r. write2dyna fopen_w F stem anz node elem lcase = Inr r \<and>
           (elem_type (elem ! i) = 1 \<longrightarrow>
              handle1 r = Some (node_section F anz node @ ''*ELEMENT_SOLID\<newline>''
                @ concat (map elem_text (take i elem))
                @ line_8d (elem_nr (elem ! i) # elem_group (elem ! i)
                           # slots (nod (elem ! i)) [0, 1, 2, 3, 4, 5, 6, 7])
                @ concat (map elem_text (drop (Suc i) (take (nat (anz_e anz)) elem))))) \<and>
           (elem_type (elem ! i) = 3 \<longrightarrow>
              handle1 r = Some (node_section F anz node @ ''*ELEMENT_SOLID\<newline>''
                @ concat (map elem_text (take i elem))
                @ line_8d (elem_nr (elem ! i) # elem_group (elem ! i)
                           # slots (nod (elem ! i)) [0, 1, 2, 3])
                @ concat (map elem_text (drop (Suc i) (take (nat (anz_e anz)) elem)))))"
proof -
  have "elem_ok (elem ! i)" using assms(3,4) by (rule elems_ok_nth)
  then show ?thesis
    using assms by (simp add: write2dyna_ok elem_section_split elem_text_type1 elem_text_type3)
qed

theorem hex8_tet4_record_witness:
  "(\<exists>r. write2dyna any_path whole_16_3f ''mesh'' \<lparr>anz_n = 0, anz_e = 2\<rparr> []
          [\<lparr>elem_nr = 7, elem_type = 1, elem_group = 2, nod = [11, 12, 13, 14, 15, 16, 17, 18]\<rparr>,
           \<lparr>elem_nr = 8, elem_type = 3, elem_group = 5, nod = [21, 22, 23, 24]\<rparr>] () = Inr r \<and>
        handle1 r = Some (''*ELEMENT_SOLID\<newline>''
          @ ''       7       2      11      12      13      14      15      16      17      18\<newline>''
          @ ''       8       5      21      22      23      24\<newline>''))"
proof -
  let ?anz = "\<lparr>anz_n = 0, anz_e = 2\<rparr>"
  let ?e0 = "\<lparr>elem_nr = 7, elem_type = 1, elem_group = 2, nod = [11, 12, 13, 14, 15, 16, 17, 18]\<rparr>"
  let ?e1 = "\<lparr>elem_nr = 8, elem_type = 3, elem_group = 5, nod = [21, 22, 23, 24]\<rparr>"
  let ?el = "[?e0, ?e1]"
  let ?out = "''*ELEMENT_SOLID\<newline>''
          @ ''       7       2      11      12      13      14      15      16      17      18\<newline>''
          @ ''       8       5      21      22      23      24\<newline>''"
  have h1: "any_path (''mesh'' @ ''.dyn'')" by (simp add: any_path_def)
  have h2: "nodes_ok ?anz ([] :: int Nodes list)" by (simp add: nodes_ok_def)
  have h3: "elems_ok ?anz ?el" by (simp add: elems_ok_def elem_ok_def)
  have i0: "0 < nat (anz_e ?anz)" and i1: "1 < nat (anz_e ?anz)" by simp_all
  have t0: "(elem_type (?el ! 0) = 1) = True" "(elem_type (?el ! 0) = 3) = False" by simp_all
  have t1: "(elem_type (?el ! 1) = 3) = True" "(elem_type (?el ! 1) = 1) = False" by simp_all
  have v0: "node_section whole_16_3f ?anz [] @ ''*ELEMENT_SOLID\<newline>''
             @ concat (map elem_text (take 0 ?el))
             @ line_8d (elem_nr (?el ! 0) # elem_group (?el ! 0)
                        # slots (nod (?el ! 0)) [0, 1, 2, 3, 4, 5, 6, 7])
             @ concat (map elem_text (drop (Suc 0) (take (nat (anz_e ?anz)) ?el))) = ?out"
    by code_simp
  have v1: "node_section whole_16_3f ?anz [] @ ''*ELEMENT_SOLID\<newline>''
             @ concat (map elem_text (take 1 ?el))
             @ line_8d (elem_nr (?el ! 1) # elem_group (?el ! 1) # slots (nod (?el ! 1)) [0, 1, 2, 3])
             @ concat (map elem_text (drop (Suc 1) (take (nat (anz_e ?anz)) ?el))) = ?out"
    by code_simp
  have a: "\<exists>r. write2dyna any_path whole_16_3f ''mesh'' ?anz [] ?el () = Inr r \<and>
             handle1 r = Some ?out"
    using hex8_tet4_record [where fopen_w = any_path and stem = "''mesh''"
        and F = whole_16_3f and lcase = "()", OF h1 h2 h3 i0]
    unfolding t0 v0 by simp
  have b: "\<exists>r. write2dyna any_path whole_16_3f ''mesh'' ?anz [] ?el () = Inr r \<and>
             handle1 r = Some ?out"
    using hex8_tet4_record [where fopen_w = any_path and stem = "''mesh''"
        and F = whole_16_3f and lcase = "()", OF h1 h2 h3 i1]
    unfolding t1 v1 by simp
  from a b show ?thesis by simp
qed

text \<open>
  C9, as the code has it. The encoder is not injective on meshes of supported
  types, so no decoder inverts it; \<open>decode_inverse_counterexample\<close> evaluates four
  cases. Two wedges that differ in the slots 10 to 14, which are never written, give
  one file. Two tetrahedra whose number and group run together in seventeen columns
  give one file. Two nodes with the coordinates 0 and 1/4096 give one file, since
  three decimals are printed. A node with the coordinate \<open>10 ^ 15\<close> gives a record of
  60 columns, on which the decoder of the spec fails. What holds, for the decoder
  modelled from the spec and any reading of coordinate fields: when the file opens,
  the node reads are inside the array, the text for \<open>%16.3f\<close> holds no newline, the
  first \<open>anz->n\<close> node entries have a number that fits eight columns and coordinates
  whose text takes exactly sixteen columns and is read as the same coordinate, and
  the first \<open>anz->e\<close> elements are of the types 1, 3 and 4 with exactly 8, 4 and 20
  slots and numbers that fit eight columns, decoding the file gives back the node
  records, number and coordinates, in array order, and those elements, equal in
  number, group, type and node order.
\<close>

theorem decode_encode_plain:
  assumes "fopen_w (stem @ ''.dyn'')" "nodes_ok anz node" "anz_e anz \<le> int (length elem)"
    and "list_all plain_elem (take (nat (anz_e anz)) elem)"
    and "list_all (plain_node F pf node) (take (nat (anz_n anz)) node)"
    and "\<forall>v. CHR ''\<newline>'' \<notin> set (F v)"
  shows "\<exists>r txt. write2dyna fopen_w F stem anz node elem lcase = Inr r \<and> handle1 r = Some txt \<and>
     decode pf txt =
       Inr (map (\<lambda>ni. (node_nr ni, nx (node ! nat (node_nr ni)), ny (node ! nat (node_nr ni)),
                        nz (node ! nat (node_nr ni))))
              (take (nat (anz_n anz)) node),
            take (nat (anz_e anz)) elem)"
proof -
  have c: "node_coords node =
      (\<lambda>ni. (node_nr ni, nx (node ! nat (node_nr ni)), ny (node ! nat (node_nr ni)),
             nz (node ! nat (node_nr ni))))"
    by (rule ext) (simp add: node_coords_def)
  have "elems_ok anz elem" using assms(3,4) by (rule plain_elems_ok)
  with assms(1,2) have "write2dyna fopen_w F stem anz node elem lcase =
    Inr \<lparr>status = 1, datout = stem @ ''.dyn'',
         handle1 = Some (node_section F anz node @ elem_section anz elem),
         stdout = banner (stem @ ''.dyn'') @ diagnostics anz elem\<rparr>"
    by (rule write2dyna_ok)
  then show ?thesis using decode_sections [OF assms(6,5,4)] by (simp add: c)
qed

theorem decode_encode_plain_witness:
  "\<exists>r txt. write2dyna any_path whole_16_3f ''mesh'' \<lparr>anz_n = 2, anz_e = 3\<rparr>
       [\<lparr>node_nr = 2, nx = 0, ny = 0, nz = 0\<rparr>, \<lparr>node_nr = 1, nx = 1, ny = 2, nz = 3\<rparr>,
        \<lparr>node_nr = 0, nx = - 4, ny = 5, nz = 6\<rparr>]
       [\<lparr>elem_nr = 1, elem_type = 3, elem_group = 1, nod = [1, 2, 3, 4]\<rparr>,
        \<lparr>elem_nr = 2, elem_type = 1, elem_group = - 5, nod = [1, 2, 3, 4, 5, 6, 7, 8]\<rparr>,
        \<lparr>elem_nr = 3, elem_type = 4, elem_group = 1, nod = map int [100..<120]\<rparr>] () = Inr r \<and>
     handle1 r = Some txt \<and>
     decode parse_whole txt =
       Inr ([(2, - 4, 5, 6), (1, 1, 2, 3)],
            [\<lparr>elem_nr = 1, elem_type = 3, elem_group = 1, nod = [1, 2, 3, 4]\<rparr>,
             \<lparr>elem_nr = 2, elem_type = 1, elem_group = - 5, nod = [1, 2, 3, 4, 5, 6, 7, 8]\<rparr>,
             \<lparr>elem_nr = 3, elem_type = 4, elem_group = 1, nod = map int [100..<120]\<rparr>])"
proof -
  let ?anz = "\<lparr>anz_n = 2, anz_e = 3\<rparr>"
  let ?node = "[\<lparr>node_nr = 2, nx = 0, ny = 0, nz = 0\<rparr>, \<lparr>node_nr = 1, nx = 1, ny = 2, nz = 3\<rparr>,
        \<lparr>node_nr = 0, nx = - 4, ny = 5, nz = 6 :: int\<rparr>]"
  let ?elem = "[\<lparr>elem_nr = 1, elem_type = 3, elem_group = 1, nod = [1, 2, 3, 4]\<rparr>,
        \<lparr>elem_nr = 2, elem_type = 1, elem_group = - 5, nod = [1, 2, 3, 4, 5, 6, 7, 8]\<rparr>,
        \<lparr>elem_nr = 3, elem_type = 4, elem_group = 1, nod = map int [100..<120]\<rparr>]"
  have h1: "any_path (''mesh'' @ ''.dyn'')" by (simp add: any_path_def)
  have h2: "nodes_ok ?anz ?node" by (simp add: nodes_ok_def node_ok_def)
  have h3: "anz_e ?anz \<le> int (length ?elem)" by simp
  have h4: "list_all plain_elem (take (nat (anz_e ?anz)) ?elem)" by code_simp
  have h5: "list_all (plain_node whole_16_3f parse_whole ?node) (take (nat (anz_n ?anz)) ?node)"
    by code_simp
  have h6: "\<forall>v. CHR ''\<newline>'' \<notin> set (whole_16_3f v)" by (simp add: whole_16_3f_no_newline)
  have v: "map (\<lambda>ni. (node_nr ni, nx (?node ! nat (node_nr ni)), ny (?node ! nat (node_nr ni)),
                        nz (?node ! nat (node_nr ni))))
              (take (nat (anz_n ?anz)) ?node)
      = [(2, - 4, 5, 6), (1, 1, 2, 3)]"
    by code_simp
  have w: "take (nat (anz_e ?anz)) ?elem = ?elem" by simp
  show ?thesis
    using decode_encode_plain [where fopen_w = any_path and stem = "''mesh''" and lcase = "()",
        OF h1 h2 h3 h4 h5 h6]
    unfolding v w .
qed

theorem decode_inverse_counterexample:
  "write2dyna any_path whole_16_3f ''mesh'' \<lparr>anz_n = 0, anz_e = 1\<rparr> []
     [\<lparr>elem_nr = 1, elem_type = 6, elem_group = 1,
       nod = [1, 2, 3, 4, 5, 6, 7, 8, 9, 10, 11, 12, 13, 14, 15]\<rparr>] () =
   Inr \<lparr>status = 1, datout = ''mesh.dyn'',
        handle1 = Some (''*ELEMENT_SOLID\<newline>''
          @ ''       1       1\<newline>''
          @ ''       1       2       3       4       5       6       7       9      10       8\<newline>''),
        stdout = ''\<newline>mesh.dyn opened\<newline>\<newline> write ls-dyna data  \<newline>''\<rparr> \<and>
   write2dyna any_path whole_16_3f ''mesh'' \<lparr>anz_n = 0, anz_e = 1\<rparr> []
     [\<lparr>elem_nr = 1, elem_type = 6, elem_group = 1,
       nod = [1, 2, 3, 4, 5, 6, 7, 8, 9, 10, 21, 22, 23, 24, 25]\<rparr>] () =
   Inr \<lparr>status = 1, datout = ''mesh.dyn'',
        handle1 = Some (''*ELEMENT_SOLID\<newline>''
          @ ''       1       1\<newline>''
          @ ''       1       2       3       4       5       6       7       9      10       8\<newline>''),
        stdout = ''\<newline>mesh.dyn opened\<newline>\<newline> write ls-dyna data  \<newline>''\<rparr> \<and>
   write2dyna any_path whole_16_3f ''mesh'' \<lparr>anz_n = 0, anz_e = 1\<rparr> []
     [\<lparr>elem_nr = 123456789, elem_type = 3, elem_group = 12345678, nod = [1, 2, 3, 4]\<rparr>] () =
   Inr \<lparr>status = 1, datout = ''mesh.dyn'',
        handle1 = Some (''*ELEMENT_SOLID\<newline>''
          @ ''12345678912345678       1       2       3       4\<newline>''),
        stdout = ''\<newline>mesh.dyn opened\<newline>\<newline> write ls-dyna data  \<newline>''\<rparr> \<and>
   write2dyna any_path whole_16_3f ''mesh'' \<lparr>anz_n = 0, anz_e = 1\<rparr> []
     [\<lparr>elem_nr = 12345678, elem_type = 3, elem_group = 912345678, nod = [1, 2, 3, 4]\<rparr>] () =
   Inr \<lparr>status = 1, datout = ''mesh.dyn'',
        handle1 = Some (''*ELEMENT_SOLID\<newline>''
          @ ''12345678912345678       1       2       3       4\<newline>''),
        stdout = ''\<newline>mesh.dyn opened\<newline>\<newline> write ls-dyna data  \<newline>''\<rparr> \<and>
   write2dyna any_path dyadic_16_3f ''mesh'' \<lparr>anz_n = 1, anz_e = 0\<rparr>
     [\<lparr>node_nr = 0, nx = (0, 0), ny = (0, 0), nz = (0, 0)\<rparr>] [] () =
   Inr \<lparr>status = 1, datout = ''mesh.dyn'',
        handle1 = Some (''*NODE\<newline>''
          @ ''       0           0.000           0.000           0.000\<newline>''),
        stdout = ''\<newline>mesh.dyn opened\<newline>\<newline> write ls-dyna data  \<newline>''\<rparr> \<and>
   write2dyna any_path dyadic_16_3f ''mesh'' \<lparr>anz_n = 1, anz_e = 0\<rparr>
     [\<lparr>node_nr = 0, nx = (1, 12), ny = (0, 0), nz = (0, 0)\<rparr>] [] () =
   Inr \<lparr>status = 1, datout = ''mesh.dyn'',
        handle1 = Some (''*NODE\<newline>''
          @ ''       0           0.000           0.000           0.000\<newline>''),
        stdout = ''\<newline>mesh.dyn opened\<newline>\<newline> write ls-dyna data  \<newline>''\<rparr> \<and>
   write2dyna any_path whole_16_3f ''mesh'' \<lparr>anz_n = 1, anz_e = 0\<rparr>
     [\<lparr>node_nr = 0, nx = 1000000000000000, ny = 0, nz = 0\<rparr>] [] () =
   Inr \<lparr>status = 1, datout = ''mesh.dyn'',
        handle1 = Some (''*NODE\<newline>''
          @ ''       01000000000000000.000           0.000           0.000\<newline>''),
        stdout = ''\<newline>mesh.dyn opened\<newline>\<newline> write ls-dyna data  \<newline>''\<rparr> \<and>
   decode parse_whole (''*NODE\<newline>''
          @ ''       01000000000000000.000           0.000           0.000\<newline>'') =
   Inl MalformedRecord"
proof -
  have d: "dyadic_16_3f (0, 0) = ''           0.000''"
    "dyadic_16_3f (1, 12) = ''           0.000''"
    by (simp add: dyadic_16_3f_def Let_def,
        simp add: pad_def dec_digits.simps digit_char_def replicate_numeral)+
  show ?thesis
    by (simp add: run_simps d decode_def text_lines_def)
qed

text \<open>
  C10. The argument \<open>lcase\<close> is never read: two calls that differ in it alone give the
  same result, which holds the returned status, the bytes written to the file and the
  bytes printed.
\<close>

theorem lcase_unused:
  "write2dyna fopen_w F stem anz node elem lcase =
   write2dyna fopen_w F stem anz node elem lcase'"
  by (simp add: write2dyna_def)

theorem lcase_unused_witness:
  "write2dyna any_path whole_16_3f ''mesh'' \<lparr>anz_n = 0, anz_e = 1\<rparr> []
     [\<lparr>elem_nr = 1, elem_type = 3, elem_group = 1, nod = [1, 2, 3, 4]\<rparr>] [1 :: nat, 2] =
   write2dyna any_path whole_16_3f ''mesh'' \<lparr>anz_n = 0, anz_e = 1\<rparr> []
     [\<lparr>elem_nr = 1, elem_type = 3, elem_group = 1, nod = [1, 2, 3, 4]\<rparr>] ''other''"
  by (rule lcase_unused)

end
